theory Spec2Isabelle
  imports Main
begin

section \<open>JavaScript values and strings\<close>

text \<open>
  The values that reach the module from the host program. Numbers are modelled as
  integers (the module only tests them for truthiness and subtracts timestamps), objects
  are opaque references. A string is a list of characters; the model's alphabet is the
  256 characters of \<open>char\<close>, so code units above \<open>0xFF\<close> are outside it.
\<close>

datatype js_value = JUndefined | JNull | JBool bool | JNum int | JStr string | JObj nat

fun truthy :: "js_value \<Rightarrow> bool" where
  "truthy JUndefined = False"
| "truthy JNull = False"
| "truthy (JBool b) = b"
| "truthy (JNum n) = (n \<noteq> 0)"
| "truthy (JStr s) = (s \<noteq> [])"
| "truthy (JObj r) = True"

definition backslash :: char where
  "backslash = CHR 0x5C"

text \<open>The characters of the class \<open>\s\<close> (within the alphabet), and the class \<open>[\s,]\<close>.\<close>

definition is_space :: "char \<Rightarrow> bool" where
  "is_space c = (c = CHR 0x09 \<or> c = CHR 0x0A \<or> c = CHR 0x0B \<or> c = CHR 0x0C \<or> c = CHR 0x0D
      \<or> c = CHR 0x20 \<or> c = CHR 0xA0)"

definition is_sep :: "char \<Rightarrow> bool" where
  "is_sep c = (is_space c \<or> c = CHR '','')"

text \<open>The characters the dot of a regular expression does not match (no \<open>s\<close> flag).\<close>

definition line_terminator :: "char \<Rightarrow> bool" where
  "line_terminator c = (c = CHR 0x0A \<or> c = CHR 0x0D)"

text \<open>
  \<open>String.prototype.split\<close> with the separator \<open>/[\s,]+/\<close>: the pieces between maximal
  runs of separator characters, empty pieces at either end included.
\<close>

function js_split :: "string \<Rightarrow> string list" where
  "js_split s =
     (let piece = takeWhile (\<lambda>c. \<not> is_sep c) s;
          rest = dropWhile (\<lambda>c. \<not> is_sep c) s
      in if rest = [] then [piece] else piece # js_split (dropWhile is_sep rest))"
  by pat_completeness auto

lemma dropWhile_sep_shorter:
  "dropWhile (\<lambda>c. \<not> is_sep c) s \<noteq> [] \<Longrightarrow>
   length (dropWhile is_sep (dropWhile (\<lambda>c. \<not> is_sep c) s)) < length s"
proof -
  assume ne: "dropWhile (\<lambda>c. \<not> is_sep c) s \<noteq> []"
  then obtain c cs where r: "dropWhile (\<lambda>c. \<not> is_sep c) s = c # cs"
    by (cases "dropWhile (\<lambda>c. \<not> is_sep c) s") auto
  have "is_sep c" using r by (metis (mono_tags, lifting) dropWhile_eq_Cons_conv)
  then have "dropWhile is_sep (c # cs) = dropWhile is_sep cs" by simp
  moreover have "length (dropWhile is_sep cs) \<le> length cs" by (rule length_dropWhile_le)
  moreover have "length (c # cs) \<le> length s" unfolding r[symmetric] by (rule length_dropWhile_le)
  ultimately show ?thesis using r by simp
qed

termination js_split
  by (relation "measure length") (auto simp: dropWhile_sep_shorter)

declare js_split.simps [simp del]

text \<open>\<open>Array.prototype.join\<close>.\<close>

fun js_join :: "string \<Rightarrow> string list \<Rightarrow> string" where
  "js_join sep [] = []"
| "js_join sep [x] = x"
| "js_join sep (x # y # ys) = x @ sep @ js_join sep (y # ys)"

text \<open>\<open>String.prototype.substring\<close>: both indices clamped to the length, swapped if needed.\<close>

definition substring :: "nat \<Rightarrow> nat \<Rightarrow> string \<Rightarrow> string" where
  "substring a b s =
     (let a' = min a (length s); b' = min b (length s);
          lo = min a' b'; hi = max a' b'
      in take (hi - lo) (drop lo s))"

section \<open>Regular expressions\<close>

text \<open>
  The module builds its matchers with \<open>new RegExp(pattern)\<close>, without flags, and only
  calls \<open>test\<close> and \<open>toString\<close> on them. The model covers the fragment of the pattern
  language made of the assertions \<open>^\<close> and \<open>$\<close>, the dot, literal characters, an escaped
  syntax character, and the quantifiers \<open>*\<close>, \<open>+\<close>, \<open>?\<close> with their lazy forms. A pattern
  with a quantifier that has nothing to repeat is a \<open>SyntaxError\<close>, as in the language.
  Groups, classes, alternation, braces and the other escapes are beyond the fragment:
  for a pattern that uses them the parser answers \<open>Beyond\<close>, and what \<open>new RegExp\<close> does
  with it (throw, or build a matcher) is left to the language's own engine, a parameter.
\<close>

datatype rx_error = SyntaxError

datatype rx_outside = Invalid | Beyond

datatype rx_atom = AnyChar | Lit char

datatype rx_quant = Once | Opt | Star | Plus

datatype rx_term = BOL | EOL | Atom rx_atom rx_quant bool

definition syntax_char :: "char \<Rightarrow> bool" where
  "syntax_char c = (c = CHR ''^'' \<or> c = CHR ''$'' \<or> c = backslash \<or> c = CHR ''.''
      \<or> c = CHR ''*'' \<or> c = CHR ''+'' \<or> c = CHR ''?'' \<or> c = CHR ''('' \<or> c = CHR '')''
      \<or> c = CHR ''['' \<or> c = CHR '']'' \<or> c = CHR ''{'' \<or> c = CHR ''}'' \<or> c = CHR ''|'')"

definition quant_char :: "char \<Rightarrow> bool" where
  "quant_char c = (c = CHR ''*'' \<or> c = CHR ''+'' \<or> c = CHR ''?'')"

definition bracket_char :: "char \<Rightarrow> bool" where
  "bracket_char c = (c = CHR ''('' \<or> c = CHR '')'' \<or> c = CHR ''['' \<or> c = CHR '']''
      \<or> c = CHR ''{'' \<or> c = CHR ''}'' \<or> c = CHR ''|'')"

text \<open>
  The optional quantifier after an atom: the quantifier, whether it is lazy (a \<open>?\<close>
  follows it), and the rest of the pattern.
\<close>

fun rx_quantifier :: "string \<Rightarrow> rx_quant \<times> bool \<times> string" where
  "rx_quantifier [] = (Once, False, [])"
| "rx_quantifier (c # cs) =
     (if quant_char c then
        (let q = (if c = CHR ''*'' then Star else if c = CHR ''+'' then Plus else Opt)
         in if cs \<noteq> [] \<and> hd cs = CHR ''?'' then (q, True, tl cs) else (q, False, cs))
      else (Once, False, c # cs))"

lemma rx_quantifier_length:
  "rx_quantifier s = (q, lz, r) \<Longrightarrow> length r \<le> length s"
  by (cases s) (auto split: if_splits simp: Let_def)

fun rx_cons :: "rx_term \<Rightarrow> rx_outside + rx_term list \<Rightarrow> rx_outside + rx_term list" where
  "rx_cons t (Inl e) = Inl e"
| "rx_cons t (Inr ts) = Inr (t # ts)"

function rx_parse :: "string \<Rightarrow> rx_outside + rx_term list" where
  "rx_parse [] = Inr []"
| "rx_parse (c # cs) =
     (if c = CHR ''^'' then rx_cons BOL (rx_parse cs)
      else if c = CHR ''$'' then rx_cons EOL (rx_parse cs)
      else if quant_char c then Inl Invalid
      else if bracket_char c then Inl Beyond
      else if c = backslash then
        (case cs of
           [] \<Rightarrow> Inl Invalid
         | d # ds \<Rightarrow>
             if syntax_char d \<or> d = CHR ''/'' then
               (case rx_quantifier ds of
                  (q, lz, r) \<Rightarrow> rx_cons (Atom (Lit d) q lz) (rx_parse r))
             else Inl Beyond)
      else
        (case rx_quantifier cs of
           (q, lz, r) \<Rightarrow>
             rx_cons (Atom (if c = CHR ''.'' then AnyChar else Lit c) q lz) (rx_parse r)))"
  by pat_completeness auto

termination rx_parse
  by (relation "measure length") (auto dest!: rx_quantifier_length sym[of _ "rx_quantifier _"])

declare rx_parse.simps [simp del]

fun atom_ok :: "rx_atom \<Rightarrow> char \<Rightarrow> bool" where
  "atom_ok AnyChar c = (\<not> line_terminator c)"
| "atom_ok (Lit d) c = (c = d)"

text \<open>
  \<open>rx_run ts at_start s\<close>: the terms \<open>ts\<close> match a prefix of the remaining input \<open>s\<close>;
  \<open>at_start\<close> says whether the position is the start of the input. A backtracking
  matcher tries the alternatives of a quantifier in an order that depends on whether it
  is lazy; whether some alternative succeeds does not depend on that order.
\<close>

fun rx_run :: "rx_term list \<Rightarrow> bool \<Rightarrow> string \<Rightarrow> bool" where
  "rx_run [] b s = True"
| "rx_run (BOL # ts) b s = (b \<and> rx_run ts b s)"
| "rx_run (EOL # ts) b s = (s = [] \<and> rx_run ts b s)"
| "rx_run (Atom a Once lz # ts) b [] = False"
| "rx_run (Atom a Once lz # ts) b (c # cs) = (atom_ok a c \<and> rx_run ts False cs)"
| "rx_run (Atom a Opt lz # ts) b [] = rx_run ts b []"
| "rx_run (Atom a Opt lz # ts) b (c # cs) =
     (rx_run ts b (c # cs) \<or> (atom_ok a c \<and> rx_run ts False cs))"
| "rx_run (Atom a Star lz # ts) b [] = rx_run ts b []"
| "rx_run (Atom a Star lz # ts) b (c # cs) =
     (rx_run ts b (c # cs) \<or> (atom_ok a c \<and> rx_run (Atom a Star lz # ts) False cs))"
| "rx_run (Atom a Plus lz # ts) b [] = False"
| "rx_run (Atom a Plus lz # ts) b (c # cs) =
     (atom_ok a c \<and> rx_run (Atom a Star lz # ts) False cs)"

text \<open>\<open>test\<close> succeeds when the pattern matches at some position of the input.\<close>

fun rx_search :: "rx_term list \<Rightarrow> bool \<Rightarrow> string \<Rightarrow> bool" where
  "rx_search ts b [] = rx_run ts b []"
| "rx_search ts b (c # cs) = (rx_run ts b (c # cs) \<or> rx_search ts False cs)"

text \<open>
  A \<open>RegExp\<close> object: its \<open>source\<close> (the pattern with \<open>/\<close> and line terminators escaped,
  so that \<open>toString\<close> is a valid literal) and its matcher: the compiled terms of a
  pattern of the fragment, or whatever the engine built for a pattern beyond it.
\<close>

datatype rx_prog = Terms "rx_term list" | Native "string \<Rightarrow> bool"

record regexp =
  source :: string
  prog :: rx_prog

definition escape_char :: "char \<Rightarrow> string" where
  "escape_char c =
     (if c = CHR ''/'' then [backslash, CHR ''/'']
      else if c = CHR 0x0A then [backslash, CHR ''n'']
      else if c = CHR 0x0D then [backslash, CHR ''r'']
      else [c])"

fun escape_source :: "string \<Rightarrow> string" where
  "escape_source [] = []"
| "escape_source [c] = escape_char c"
| "escape_source (c # d # cs) =
     (if c = backslash then c # d # escape_source cs
      else escape_char c @ escape_source (d # cs))"

definition RegExp_source :: "string \<Rightarrow> string" where
  "RegExp_source p = (if p = [] then ''(?:)'' else escape_source p)"

text \<open>
  \<open>new RegExp(p)\<close>. \<open>E\<close> is the engine on the patterns beyond the fragment: \<open>E p\<close> is
  \<open>None\<close> when it throws a \<open>SyntaxError\<close>, the object it builds otherwise.
\<close>

definition RegExp_new :: "(string \<Rightarrow> regexp option) \<Rightarrow> string \<Rightarrow> rx_error + regexp" where
  "RegExp_new E p =
     (case rx_parse p of
        Inr ts \<Rightarrow> Inr \<lparr>source = RegExp_source p, prog = Terms ts\<rparr>
      | Inl Invalid \<Rightarrow> Inl SyntaxError
      | Inl Beyond \<Rightarrow> (case E p of None \<Rightarrow> Inl SyntaxError | Some r \<Rightarrow> Inr r))"

definition RegExp_test :: "regexp \<Rightarrow> string \<Rightarrow> bool" where
  "RegExp_test r s = (case prog r of Terms ts \<Rightarrow> rx_search ts True s | Native m \<Rightarrow> m s)"

definition RegExp_toString :: "regexp \<Rightarrow> string" where
  "RegExp_toString r = ''/'' @ source r @ ''/''"

section \<open>The module's state\<close>

text \<open>
  Collaborators that are not part of \<open>debug.ts\<close>: \<open>selectColor\<close> and \<open>coerce\<close> of
  \<open>utils.ts\<close>, \<open>format\<close> of \<open>format.ts\<close>, the imported \<open>ms\<close>, and the regular expression
  engine on the patterns beyond the modelled fragment. The functions below take them as
  a parameter.
\<close>

record deps =
  engine :: "string \<Rightarrow> regexp option"
  selectColor :: "string \<Rightarrow> nat"
  coerce :: "js_value \<Rightarrow> js_value"
  format :: "js_value list \<Rightarrow> string"
  ms :: "int \<Rightarrow> string"

text \<open>
  A debug instance: the properties \<open>namespace\<close>, \<open>enabled\<close>, \<open>color\<close> and \<open>log\<close> of the
  function object, and \<open>prevTime\<close> of its closure. The \<open>log\<close> override is a reference
  to a function of the host program.
\<close>

record debug_instance =
  namespace :: string
  enabledFlag :: bool
  color :: nat
  log :: "nat option"
  prevTime :: "int option"

text \<open>Where a rendered line goes: the default logger's standard error, or an override.\<close>

datatype sink = Stderr | Custom nat

text \<open>
  The module's variables and what it shares with the host. Instances have identity and are
  updated in place: \<open>heap\<close> holds every instance ever created, addressed by its index,
  and \<open>instances\<close> is the registry of addresses. \<open>clock_reads\<close> counts the evaluations
  of \<open>new Date()\<close>, \<open>emitted\<close> lists the calls of loggers in order.
\<close>

record state =
  env_DEBUG :: "js_value option"
  names :: "regexp list"
  skips :: "regexp list"
  formatters :: "char \<Rightarrow> (js_value \<Rightarrow> string) option"
  heap :: "debug_instance list"
  instances :: "nat list"
  clock_reads :: nat
  emitted :: "(sink \<times> string) list"

definition updateNamespacesEnv :: "js_value \<Rightarrow> state \<Rightarrow> state" where
  "updateNamespacesEnv namespaces st =
     (if truthy namespaces then st\<lparr>env_DEBUG := Some namespaces\<rparr>
      else st\<lparr>env_DEBUG := None\<rparr>)"

section \<open>enabled, enable, disable\<close>

text \<open>The two loops of \<open>enabled\<close>: the first rule that matches ends the loop.\<close>

fun any_test :: "regexp list \<Rightarrow> string \<Rightarrow> bool" where
  "any_test [] n = False"
| "any_test (r # rs) n = (if RegExp_test r n then True else any_test rs n)"

definition enabled :: "state \<Rightarrow> string \<Rightarrow> bool" where
  "enabled st n =
     (if n \<noteq> [] \<and> last n = CHR ''*'' then True
      else if any_test (skips st) n then False
      else if any_test (names st) n then True
      else False)"

text \<open>\<open>namespace.replace(/\*/g, ".*?")\<close>\<close>

definition star_to_regex :: "string \<Rightarrow> string" where
  "star_to_regex s = concat (map (\<lambda>c. if c = CHR ''*'' then ''.*?'' else [c]) s)"

text \<open>
  The \<open>forEach\<close> over the tokens. \<open>new RegExp\<close> may throw: the loop stops there, with the
  rules pushed so far.
\<close>

fun enable_each :: "deps \<Rightarrow> string list \<Rightarrow> state \<Rightarrow> rx_error option \<times> state" where
  "enable_each X [] st = (None, st)"
| "enable_each X (ns # rest) st =
     (if ns = [] then enable_each X rest st
      else if hd ns = CHR ''-'' then
        (case RegExp_new (engine X) (''^'' @ tl ns @ ''$'') of
           Inl e \<Rightarrow> (Some e, st)
         | Inr r \<Rightarrow> enable_each X rest (st\<lparr>skips := skips st @ [r]\<rparr>))
      else
        (case RegExp_new (engine X) (''^'' @ ns @ ''$'') of
           Inl e \<Rightarrow> (Some e, st)
         | Inr r \<Rightarrow> enable_each X rest (st\<lparr>names := names st @ [r]\<rparr>)))"

text \<open>The \<open>forEach\<close> over the registry.\<close>

definition set_enabled :: "nat \<Rightarrow> state \<Rightarrow> state" where
  "set_enabled a st =
     st\<lparr>heap := (heap st)[a := (heap st ! a)\<lparr>enabledFlag := enabled st (namespace (heap st ! a))\<rparr>]\<rparr>"

definition recompute :: "state \<Rightarrow> state" where
  "recompute st = fold set_enabled (instances st) st"

text \<open>
  \<open>enable\<close> returns \<open>None\<close> with the new state, or the error it threw with the state at
  that point.
\<close>

definition enable :: "deps \<Rightarrow> js_value \<Rightarrow> state \<Rightarrow> rx_error option \<times> state" where
  "enable X namespaces st =
     (let st1 = updateNamespacesEnv namespaces st;
          st2 = st1\<lparr>names := [], skips := []\<rparr>;
          sel = (case namespaces of JStr s \<Rightarrow> s | _ \<Rightarrow> [])
      in case enable_each X (map star_to_regex (js_split sel)) st2 of
           (Some e, st3) \<Rightarrow> (Some e, st3)
         | (None, st3) \<Rightarrow> (None, recompute st3))"

definition regexpToNamespace :: "regexp \<Rightarrow> string" where
  "regexpToNamespace r =
     (let t = RegExp_toString r;
          s = substring 2 (length t - 2) t
      in if 3 \<le> length s \<and> drop (length s - 3) s = ''.*?''
         then take (length s - 3) s @ ''*'' else s)"

definition disable :: "deps \<Rightarrow> state \<Rightarrow> (rx_error + string) \<times> state" where
  "disable X st =
     (let namespaces =
            js_join '','' (map regexpToNamespace (names st)
              @ map (\<lambda>n. ''-'' @ n) (map regexpToNamespace (skips st)))
      in case enable X (JStr []) st of
           (Some e, st') \<Rightarrow> (Inl e, st')
         | (None, st') \<Rightarrow> (Inr namespaces, st'))"

text \<open>The state when the module has been loaded, before \<open>enable(currentEnv.DEBUG)\<close>.\<close>

definition init :: "js_value option \<Rightarrow> state" where
  "init e = \<lparr>env_DEBUG = e, names = [], skips = [], formatters = (\<lambda>c. None), heap = [],
     instances = [], clock_reads = 0, emitted = []\<rparr>"

section \<open>Formatting\<close>

text \<open>The class \<open>[a-zA-Z]\<close>.\<close>

definition is_letter :: "char \<Rightarrow> bool" where
  "is_letter c =
     (let n = (of_char c :: nat) in (65 \<le> n \<and> n \<le> 90) \<or> (97 \<le> n \<and> n \<le> 122))"

text \<open>\<open>args[index]\<close>, which is \<open>undefined\<close> past the end, and \<open>args.splice(index, 1)\<close>.\<close>

definition arg_at :: "js_value list \<Rightarrow> nat \<Rightarrow> js_value" where
  "arg_at args i = (if i < length args then args ! i else JUndefined)"

definition splice1 :: "nat \<Rightarrow> js_value list \<Rightarrow> js_value list" where
  "splice1 i args = take i args @ drop (Suc i) args"

text \<open>
  The \<open>replace(/%([a-zA-Z%])/g, ...)\<close> of \<open>applyFormatters\<close>: the template is scanned from
  left to right for non-overlapping matches, and the callback runs on each with the
  current \<open>index\<close> and \<open>args\<close>. The result is the new template, the final index and the
  final arguments.
\<close>

fun replace_directives ::
  "(char \<Rightarrow> (js_value \<Rightarrow> string) option) \<Rightarrow> string \<Rightarrow> nat \<Rightarrow> js_value list
     \<Rightarrow> string \<times> nat \<times> js_value list" where
  "replace_directives F [] i args = ([], i, args)"
| "replace_directives F [c] i args = ([c], i, args)"
| "replace_directives F (c # d # cs) i args =
     (if c = CHR ''%'' \<and> (is_letter d \<or> d = CHR ''%'') then
        (if d = CHR ''%'' then
           (case replace_directives F cs i args of (out, j, as) \<Rightarrow> (c # d # out, j, as))
         else
           (case F d of
              None \<Rightarrow>
                (case replace_directives F cs (i + 1) args of
                   (out, j, as) \<Rightarrow> (c # d # out, j, as))
            | Some formatter \<Rightarrow>
                (case replace_directives F cs i (splice1 (i + 1) args) of
                   (out, j, as) \<Rightarrow> (formatter (arg_at args (i + 1)) @ out, j, as))))
      else
        (case replace_directives F (d # cs) i args of (out, j, as) \<Rightarrow> (c # out, j, as)))"

definition applyFormatters ::
  "deps \<Rightarrow> (char \<Rightarrow> (js_value \<Rightarrow> string) option) \<Rightarrow> js_value list \<Rightarrow> js_value list" where
  "applyFormatters X F args =
     (let args1 = (case args of [] \<Rightarrow> [coerce X JUndefined] | a # as \<Rightarrow> coerce X a # as);
          args2 = (case hd args1 of JStr t \<Rightarrow> args1 | _ \<Rightarrow> JStr ''%O'' # args1);
          template = (case hd args2 of JStr t \<Rightarrow> t | _ \<Rightarrow> [])
      in case replace_directives F template 0 args2 of
           (out, j, args3) \<Rightarrow> JStr out # tl args3)"

text \<open>Decimal digits of a number, as string concatenation renders them.\<close>

function show_nat :: "nat \<Rightarrow> string" where
  "show_nat n =
     (if n < 10 then [char_of (48 + n)]
      else show_nat (n div 10) @ [char_of (48 + n mod 10)])"
  by pat_completeness auto
termination
  by (relation "measure id") auto

declare show_nat.simps [simp del]

definition esc :: char where
  "esc = CHR 0x1B"

definition prettifyLog :: "deps \<Rightarrow> string \<Rightarrow> nat \<Rightarrow> int \<Rightarrow> js_value list \<Rightarrow> string" where
  "prettifyLog X ns col diff args =
     (let colorCode = esc # ''[3'' @ (if col < 8 then show_nat col else ''8;5;'' @ show_nat col);
          prefix = ''  '' @ colorCode @ '';1m'' @ ns @ '' '' @ esc # ''[0m''
      in prefix @ format X args @ '' '' @ colorCode @ ''m+'' @ ms X diff @ esc # ''[0m'')"

section \<open>Instances\<close>

text \<open>
  \<open>createDebug\<close> allocates the instance, computes its flag from the current rules and
  pushes it on the registry. It returns the new instance's address.
\<close>

definition createDebug :: "deps \<Rightarrow> string \<Rightarrow> state \<Rightarrow> nat \<times> state" where
  "createDebug X ns st =
     (let a = length (heap st);
          d = \<lparr>namespace = ns, enabledFlag = enabled st ns, color = selectColor X ns,
               log = None, prevTime = None\<rparr>
      in (a, st\<lparr>heap := heap st @ [d], instances := instances st @ [a]\<rparr>))"

text \<open>
  A call of the instance at address \<open>a\<close> with the arguments \<open>args\<close>; \<open>now\<close> is what the
  clock answers if it is read. The default logger writes the line and a newline to
  standard error.
\<close>

definition debug_call :: "deps \<Rightarrow> nat \<Rightarrow> js_value list \<Rightarrow> int \<Rightarrow> state \<Rightarrow> state" where
  "debug_call X a args now st =
     (let d = heap st ! a in
      if \<not> enabledFlag d then st
      else
        (let currTime = now;
             diff = currTime -
               (case prevTime d of None \<Rightarrow> currTime | Some p \<Rightarrow> if p = 0 then currTime else p);
             customFormattedArgs = applyFormatters X (formatters st) args;
             prettyLog = prettifyLog X (namespace d) (color d) diff customFormattedArgs;
             call = (case log d of
                       None \<Rightarrow> (Stderr, prettyLog @ [CHR 0x0A])
                     | Some f \<Rightarrow> (Custom f, prettyLog))
         in st\<lparr>heap := (heap st)[a := d\<lparr>prevTime := Some currTime\<rparr>],
               clock_reads := clock_reads st + 1,
               emitted := emitted st @ [call]\<rparr>))"

text \<open>\<open>instances.indexOf(this)\<close> and \<open>splice\<close>: the first occurrence is removed.\<close>

definition destroy :: "nat \<Rightarrow> state \<Rightarrow> bool \<times> state" where
  "destroy a st =
     (if a \<in> set (instances st) then (True, st\<lparr>instances := remove1 a (instances st)\<rparr>)
      else (False, st))"

text \<open>\<open>extend\<close> called on the instance at address \<open>a\<close>; without a delimiter it is \<open>":"\<close>.\<close>

definition extend :: "deps \<Rightarrow> nat \<Rightarrow> string \<Rightarrow> string option \<Rightarrow> state \<Rightarrow> nat \<times> state" where
  "extend X a subNamespace delimiter st =
     (let newNamespace = namespace (heap st ! a)
            @ (case delimiter of None \<Rightarrow> '':'' | Some d \<Rightarrow> d) @ subNamespace
      in case createDebug X newNamespace st of
           (b, st1) \<Rightarrow>
             (b, st1\<lparr>heap := (heap st1)[b := (heap st1 ! b)\<lparr>log := log (heap st1 ! a)\<rparr>]\<rparr>))"

section \<open>Notions of the statements, and sample inputs\<close>

text \<open>
  The glob reading of a token, as the specification words it: every character stands
  for itself, except \<open>*\<close>, which stands for any sequence of characters that \<open>ok\<close>
  admits; the whole namespace has to be matched.
\<close>

fun glob_match :: "(char \<Rightarrow> bool) \<Rightarrow> string \<Rightarrow> string \<Rightarrow> bool" where
  "glob_match ok [] n = (n = [])"
| "glob_match ok (p # ps) [] = (p = CHR ''*'' \<and> glob_match ok ps [])"
| "glob_match ok (p # ps) (c # cs) =
     (if p = CHR ''*'' then glob_match ok ps (c # cs) \<or> (ok c \<and> glob_match ok (p # ps) cs)
      else p = c \<and> glob_match ok ps cs)"

text \<open>
  Where a match of \<open>/%([a-zA-Z%])/g\<close> may start: \<open>boundary pre\<close> holds when the scan of
  \<open>pre\<close> ends at its end, so a \<open>%\<close> that follows \<open>pre\<close> starts a new match (in \<open>%%O\<close> the
  scan of \<open>%\<close> does not: the second \<open>%\<close> belongs to the first match).
  \<open>directive_count pre\<close> is the number of matches in \<open>pre\<close> other than \<open>%%\<close>.
\<close>

fun boundary :: "string \<Rightarrow> bool" where
  "boundary [] = True"
| "boundary [c] = (c \<noteq> CHR ''%'')"
| "boundary (c # d # cs) =
     (if c = CHR ''%'' \<and> (is_letter d \<or> d = CHR ''%'') then boundary cs else boundary (d # cs))"

fun directive_count :: "string \<Rightarrow> nat" where
  "directive_count [] = 0"
| "directive_count [c] = 0"
| "directive_count (c # d # cs) =
     (if c = CHR ''%'' \<and> (is_letter d \<or> d = CHR ''%'') then
        (if d = CHR ''%'' then directive_count cs else 1 + directive_count cs)
      else directive_count (d # cs))"

text \<open>A directive table with one entry, for \<open>O\<close>.\<close>

fun angle :: "js_value \<Rightarrow> string" where
  "angle (JStr s) = ''<'' @ s @ ''>''"
| "angle v = ''<?>''"

definition sample_formatters :: "char \<Rightarrow> (js_value \<Rightarrow> string) option" where
  "sample_formatters c = (if c = CHR ''O'' then Some angle else None)"

text \<open>
  The characters of a token that the amended reading covers: \<open>*\<close>, and every character
  that is not a syntax character of the pattern language. \<open>glob_term\<close> is the term such a
  character compiles to. \<open>any_char\<close> is the specification's wildcard, \<open>not_terminator\<close>
  the one the dot implements.
\<close>

definition glob_char :: "char \<Rightarrow> bool" where
  "glob_char c = (c = CHR ''*'' \<or> \<not> syntax_char c)"

definition glob_term :: "char \<Rightarrow> rx_term" where
  "glob_term c = (if c = CHR ''*'' then Atom AnyChar Star True else Atom (Lit c) Once False)"

definition not_terminator :: "char \<Rightarrow> bool" where
  "not_terminator c = (\<not> line_terminator c)"

definition any_char :: "char \<Rightarrow> bool" where
  "any_char c = True"

text \<open>
  The rule that a token body of such characters compiles to, and the tokens that go to
  the allow list and to the deny list.
\<close>

definition glob_rule :: "string \<Rightarrow> regexp" where
  "glob_rule body =
     \<lparr>source = RegExp_source (''^'' @ star_to_regex body @ ''$''),
      prog = Terms (BOL # map glob_term body @ [EOL])\<rparr>"

definition is_allow :: "string \<Rightarrow> bool" where
  "is_allow t = (t \<noteq> [] \<and> hd t \<noteq> CHR ''-'')"

definition is_deny :: "string \<Rightarrow> bool" where
  "is_deny t = (t \<noteq> [] \<and> hd t = CHR ''-'')"

text \<open>
  Sample collaborators, and sample states built with the module's own operations. The
  engine of \<open>sample_deps\<close> rejects every pattern beyond the fragment; the engine of
  \<open>alt_deps\<close> builds the matcher of \<open>/^b|c$/\<close>, which accepts what starts with \<open>b\<close> or
  ends with \<open>c\<close>.
\<close>

definition sample_deps :: deps where
  "sample_deps = \<lparr>engine = (\<lambda>p. None), selectColor = (\<lambda>ns. length ns), coerce = (\<lambda>v. v),
     format = (\<lambda>args. case args of JStr t # _ \<Rightarrow> t | _ \<Rightarrow> []), ms = (\<lambda>d. ''ms'')\<rparr>"

definition alt_bc :: "string \<Rightarrow> bool" where
  "alt_bc s = (s \<noteq> [] \<and> (hd s = CHR ''b'' \<or> last s = CHR ''c''))"

definition alt_deps :: deps where
  "alt_deps = sample_deps\<lparr>engine :=
     (\<lambda>p. if p = ''^b|c$'' then Some \<lparr>source = ''^b|c$'', prog = Native alt_bc\<rparr> else None)\<rparr>"

text \<open>The rules of the selector \<open>a*b\<close>, whose wildcard is not at the end.\<close>

definition inner_wildcard :: "deps \<Rightarrow> state" where
  "inner_wildcard X = snd (enable X (JStr ''a*b'') (init None))"

text \<open>The namespaces that end in \<open>*\<close>.\<close>

definition ends_with_star :: "string \<Rightarrow> bool" where
  "ends_with_star n = (n \<noteq> [] \<and> last n = CHR ''*'')"

text \<open>A well-formed state: every address of the registry is allocated.\<close>

definition wf_state :: "state \<Rightarrow> bool" where
  "wf_state st = list_all (\<lambda>a. a < length (heap st)) (instances st)"

text \<open>The rules of the selector \<open>api:*,-api:internal\<close>, compiled from the initial state.\<close>

definition api_rules :: state where
  "api_rules = snd (enable sample_deps (JStr ''api:*,-api:internal'') (init None))"

text \<open>\<open>enable("a")\<close>, then \<open>createDebug("a")\<close>: one registered instance, enabled.\<close>

definition one_enabled :: state where
  "one_enabled = snd (createDebug sample_deps ''a'' (snd (enable sample_deps (JStr ''a'') (init None))))"

text \<open>\<open>createDebug("web")\<close> with no rule: one registered instance, disabled.\<close>

definition one_disabled :: state where
  "one_disabled = snd (createDebug sample_deps ''web'' (init None))"

text \<open>An instance \<open>api\<close> whose \<open>log\<close> the host has set, under the rules of \<open>api_rules\<close>.\<close>

definition parent_state :: state where
  "parent_state = api_rules\<lparr>heap := [\<lparr>namespace = ''api'', enabledFlag = False, color = 3,
       log = Some 7, prevTime = None\<rparr>], instances := [0]\<rparr>"

section \<open>The enablement check\<close>

text \<open>The equations that evaluate \<open>enable\<close> on a selector of the fragment.\<close>

lemmas enable_eval = enable_def init_def updateNamespacesEnv_def js_split.simps is_sep_def
  is_space_def star_to_regex_def RegExp_new_def rx_parse.simps quant_char_def
  bracket_char_def backslash_def RegExp_source_def escape_char_def recompute_def

lemma any_test_iff: "any_test rs n = (\<exists>r\<in>set rs. RegExp_test r n)"
  by (induction rs) auto

text \<open>
  Claim C1. A namespace whose last character is \<open>*\<close> is enabled whatever the allow and
  deny lists hold: the check returns before either list is read.
\<close>

theorem enabled_trailing_star:
  "ends_with_star n \<Longrightarrow> enabled st n"
  by (simp add: enabled_def ends_with_star_def)

text \<open>At \<open>api:*\<close>, under a deny rule that matches it.\<close>

theorem enabled_trailing_star_witness:
  "ends_with_star ''api:*''
   \<and> any_test (skips (snd (enable sample_deps (JStr ''-*'') (init None)))) ''api:*''
   \<and> enabled (snd (enable sample_deps (JStr ''-*'') (init None))) ''api:*''"
proof -
  have h: "ends_with_star ''api:*''" by (simp add: ends_with_star_def)
  have d: "any_test (skips (snd (enable sample_deps (JStr ''-*'') (init None)))) ''api:*''"
    by (simp add: enable_eval RegExp_test_def line_terminator_def)
  show ?thesis using h d enabled_trailing_star [OF h] by simp
qed

text \<open>
  Claim C2. For a namespace that does not end in \<open>*\<close>, the check is true exactly when no
  deny rule matches it and some allow rule does: a matching deny rule wins over a
  matching allow rule, and with no matching rule the answer is false.
\<close>

theorem enabled_deny_then_allow:
  "\<not> ends_with_star n \<Longrightarrow>
   enabled st n =
     ((\<forall>r\<in>set (skips st). \<not> RegExp_test r n) \<and> (\<exists>r\<in>set (names st). RegExp_test r n))"
  by (auto simp: enabled_def ends_with_star_def any_test_iff)

lemma api_rules_skips:
  "skips api_rules =
     [\<lparr>source = ''^api:internal$'',
       prog = Terms [BOL, Atom (Lit CHR ''a'') Once False, Atom (Lit CHR ''p'') Once False,
         Atom (Lit CHR ''i'') Once False, Atom (Lit CHR '':'') Once False,
         Atom (Lit CHR ''i'') Once False, Atom (Lit CHR ''n'') Once False,
         Atom (Lit CHR ''t'') Once False, Atom (Lit CHR ''e'') Once False,
         Atom (Lit CHR ''r'') Once False, Atom (Lit CHR ''n'') Once False,
         Atom (Lit CHR ''a'') Once False, Atom (Lit CHR ''l'') Once False, EOL]\<rparr>]"
  by (simp add: api_rules_def enable_eval)

lemma api_rules_names:
  "names api_rules =
     [\<lparr>source = ''^api:.*?$'',
       prog = Terms [BOL, Atom (Lit CHR ''a'') Once False, Atom (Lit CHR ''p'') Once False,
         Atom (Lit CHR ''i'') Once False, Atom (Lit CHR '':'') Once False,
         Atom AnyChar Star True, EOL]\<rparr>]"
  by (simp add: api_rules_def enable_eval)

text \<open>The specification's example: \<open>api:internal\<close> is denied, \<open>api:public\<close> allowed, \<open>web\<close> unmatched.\<close>

theorem enabled_deny_then_allow_witness:
  "\<not> ends_with_star ''api:internal'' \<and> \<not> enabled api_rules ''api:internal''
   \<and> \<not> ends_with_star ''api:public'' \<and> enabled api_rules ''api:public''
   \<and> \<not> ends_with_star ''web'' \<and> \<not> enabled api_rules ''web''"
  using enabled_deny_then_allow [of "''api:internal''" api_rules]
    enabled_deny_then_allow [of "''api:public''" api_rules]
    enabled_deny_then_allow [of "''web''" api_rules]
  by (simp add: api_rules_skips api_rules_names ends_with_star_def RegExp_test_def
      line_terminator_def)

section \<open>Recomputing the flags\<close>

lemma enabled_set_enabled [simp]: "enabled (set_enabled a st) n = enabled st n"
  by (simp add: enabled_def set_enabled_def)

lemma set_enabled_fields [simp]:
  "names (set_enabled a st) = names st" "skips (set_enabled a st) = skips st"
  "instances (set_enabled a st) = instances st" "env_DEBUG (set_enabled a st) = env_DEBUG st"
  "formatters (set_enabled a st) = formatters st" "clock_reads (set_enabled a st) = clock_reads st"
  "emitted (set_enabled a st) = emitted st" "length (heap (set_enabled a st)) = length (heap st)"
  by (simp_all add: set_enabled_def)

lemma fold_set_enabled_fields:
  "names (fold set_enabled as st) = names st \<and> skips (fold set_enabled as st) = skips st
   \<and> instances (fold set_enabled as st) = instances st
   \<and> env_DEBUG (fold set_enabled as st) = env_DEBUG st
   \<and> formatters (fold set_enabled as st) = formatters st
   \<and> clock_reads (fold set_enabled as st) = clock_reads st
   \<and> emitted (fold set_enabled as st) = emitted st
   \<and> length (heap (fold set_enabled as st)) = length (heap st)"
  by (induction as arbitrary: st) simp_all

lemma enabled_fold_set_enabled: "enabled (fold set_enabled as st) n = enabled st n"
  by (simp add: enabled_def fold_set_enabled_fields)

lemma set_enabled_nth:
  "b < length (heap st) \<Longrightarrow>
   heap (set_enabled a st) ! b =
     (if b = a then (heap st ! b)\<lparr>enabledFlag := enabled st (namespace (heap st ! b))\<rparr>
      else heap st ! b)"
  by (simp add: set_enabled_def)

lemma fold_set_enabled_nth:
  "b < length (heap st) \<Longrightarrow>
   heap (fold set_enabled as st) ! b =
     (if b \<in> set as then (heap st ! b)\<lparr>enabledFlag := enabled st (namespace (heap st ! b))\<rparr>
      else heap st ! b)"
proof (induction as arbitrary: st)
  case Nil
  then show ?case by simp
next
  case (Cons a as)
  have len: "b < length (heap (set_enabled a st))" using Cons.prems by simp
  show ?case
    using Cons.IH [OF len] Cons.prems
    by (auto simp: set_enabled_nth)
qed

lemma recompute_nth:
  "b < length (heap st) \<Longrightarrow>
   heap (recompute st) ! b =
     (if b \<in> set (instances st)
      then (heap st ! b)\<lparr>enabledFlag := enabled st (namespace (heap st ! b))\<rparr>
      else heap st ! b)"
  by (simp add: recompute_def fold_set_enabled_nth)

lemma recompute_fields:
  "names (recompute st) = names st \<and> skips (recompute st) = skips st
   \<and> instances (recompute st) = instances st
   \<and> env_DEBUG (recompute st) = env_DEBUG st
   \<and> formatters (recompute st) = formatters st
   \<and> clock_reads (recompute st) = clock_reads st
   \<and> emitted (recompute st) = emitted st
   \<and> length (heap (recompute st)) = length (heap st)"
  unfolding recompute_def by (rule fold_set_enabled_fields)

lemma enabled_recompute: "enabled (recompute st) n = enabled st n"
  by (simp add: recompute_def enabled_fold_set_enabled)

lemma enable_each_fields:
  "enable_each X ts st = (e, st') \<Longrightarrow>
   heap st' = heap st \<and> instances st' = instances st \<and> env_DEBUG st' = env_DEBUG st
   \<and> formatters st' = formatters st \<and> clock_reads st' = clock_reads st \<and> emitted st' = emitted st"
proof (induction ts arbitrary: st)
  case Nil
  then show ?case by simp
next
  case (Cons t ts)
  then show ?case
    by (fastforce split: if_splits sum.splits)
qed

lemma enable_recomputes_flags:
  assumes wf: "wf_state st" and ok: "enable X v st = (None, st')"
  shows "\<forall>a\<in>set (instances st'). enabledFlag (heap st' ! a) = enabled st' (namespace (heap st' ! a))"
proof -
  define st2 where "st2 = (updateNamespacesEnv v st)\<lparr>names := [], skips := []\<rparr>"
  define sel where "sel = (case v of JStr s \<Rightarrow> s | _ \<Rightarrow> [])"
  obtain e st3 where e3: "enable_each X (map star_to_regex (js_split sel)) st2 = (e, st3)"
    by (cases "enable_each X (map star_to_regex (js_split sel)) st2") auto
  have en: "enable X v st = (case (e, st3) of (Some x, s) \<Rightarrow> (Some x, s) | (None, s) \<Rightarrow> (None, recompute s))"
    using e3 by (simp add: enable_def st2_def sel_def Let_def)
  from ok en have eN: "e = None" and st': "st' = recompute st3"
    by (auto split: option.splits)
  have f3: "heap st3 = heap st2" "instances st3 = instances st2"
    using enable_each_fields [OF e3] by simp_all
  have f2: "heap st2 = heap st" "instances st2 = instances st"
    by (simp_all add: st2_def updateNamespacesEnv_def)
  show ?thesis
  proof
    fix a assume a: "a \<in> set (instances st')"
    then have a3: "a \<in> set (instances st3)" by (simp add: st' recompute_fields)
    then have "a < length (heap st)" using wf f3 f2 by (simp add: wf_state_def list_all_iff)
    then have lt: "a < length (heap st3)" by (simp add: f3 f2)
    show "enabledFlag (heap st' ! a) = enabled st' (namespace (heap st' ! a))"
      using a3 by (simp add: st' recompute_nth [OF lt] enabled_recompute)
  qed
qed

lemma createDebug_keeps_flag:
  "a < length (heap st) \<Longrightarrow>
   enabledFlag (heap (snd (createDebug X ns st)) ! a) = enabledFlag (heap st ! a)"
  by (simp add: createDebug_def Let_def nth_append)

lemma extend_keeps_flag:
  "a < length (heap st) \<Longrightarrow>
   enabledFlag (heap (snd (extend X p sub d st)) ! a) = enabledFlag (heap st ! a)"
  by (simp add: extend_def createDebug_def Let_def nth_append)

lemma destroy_keeps_flag:
  "enabledFlag (heap (snd (destroy a' st)) ! a) = enabledFlag (heap st ! a)"
  by (simp add: destroy_def)

lemma debug_call_keeps_flag:
  "a < length (heap st) \<Longrightarrow>
   enabledFlag (heap (debug_call X a' args now st) ! a) = enabledFlag (heap st ! a)"
  by (cases "a = a'") (simp_all add: debug_call_def Let_def split: option.splits)

lemma one_enabled_eq:
  "one_enabled = \<lparr>env_DEBUG = Some (JStr ''a''),
     names = [\<lparr>source = ''^a$'', prog = Terms [BOL, Atom (Lit CHR ''a'') Once False, EOL]\<rparr>],
     skips = [], formatters = (\<lambda>c. None),
     heap = [\<lparr>namespace = ''a'', enabledFlag = True, color = 1, log = None, prevTime = None\<rparr>],
     instances = [0], clock_reads = 0, emitted = []\<rparr>"
  by (simp add: one_enabled_def createDebug_def enable_def init_def updateNamespacesEnv_def
      js_split.simps is_sep_def is_space_def star_to_regex_def RegExp_new_def rx_parse.simps
      quant_char_def bracket_char_def backslash_def RegExp_source_def escape_char_def
      recompute_def enabled_def RegExp_test_def sample_deps_def)

lemma alt_enable_eq:
  "enable alt_deps (JStr ''b|c'') one_enabled =
     (None, \<lparr>env_DEBUG = Some (JStr ''b|c''),
        names = [\<lparr>source = ''^b|c$'', prog = Native alt_bc\<rparr>],
        skips = [], formatters = (\<lambda>c. None),
        heap = [\<lparr>namespace = ''a'', enabledFlag = False, color = 1, log = None, prevTime = None\<rparr>],
        instances = [0], clock_reads = 0, emitted = []\<rparr>)"
  by (simp add: one_enabled_eq enable_eval alt_deps_def sample_deps_def set_enabled_def
      enabled_def RegExp_test_def alt_bc_def)

text \<open>
  Claim C6, as amended. After a call of \<open>enable\<close> that returns, every instance of the
  registry has the flag that \<open>enabled\<close> computes for its namespace from the new rules.
  Creating, extending, destroying and calling an instance leave the flag of every
  instance that already exists as it is; \<open>disable\<close> changes flags only through its call
  of \<open>enable\<close>.
\<close>

theorem enable_recomputes_every_flag:
  assumes wf: "wf_state st"
  shows "(enable X v st = (None, st') \<longrightarrow>
           (\<forall>a\<in>set (instances st').
              enabledFlag (heap st' ! a) = enabled st' (namespace (heap st' ! a))))
     \<and> (a < length (heap st) \<longrightarrow>
           enabledFlag (heap (snd (createDebug X ns st)) ! a) = enabledFlag (heap st ! a)
         \<and> enabledFlag (heap (snd (extend X p sub d st)) ! a) = enabledFlag (heap st ! a)
         \<and> enabledFlag (heap (snd (destroy p st)) ! a) = enabledFlag (heap st ! a)
         \<and> enabledFlag (heap (debug_call X p args now st) ! a) = enabledFlag (heap st ! a))"
proof (intro conjI impI)
  assume "enable X v st = (None, st')"
  then show "\<forall>a\<in>set (instances st').
      enabledFlag (heap st' ! a) = enabled st' (namespace (heap st' ! a))"
    by (rule enable_recomputes_flags [OF wf])
qed (simp_all add: createDebug_keeps_flag extend_keeps_flag destroy_keeps_flag
    debug_call_keeps_flag)

text \<open>
  The instance \<open>a\<close> is switched off by \<open>enable("b")\<close>, and also by \<open>enable("b|c")\<close>, whose
  pattern is beyond the fragment and is compiled by the engine; it keeps its flag under
  the other operations.
\<close>

theorem enable_recomputes_every_flag_witness:
  "wf_state one_enabled
   \<and> enable sample_deps (JStr ''b'') one_enabled = (None, snd (enable sample_deps (JStr ''b'') one_enabled))
   \<and> 0 \<in> set (instances (snd (enable sample_deps (JStr ''b'') one_enabled)))
   \<and> enabledFlag (heap (snd (enable sample_deps (JStr ''b'') one_enabled)) ! 0)
       = enabled (snd (enable sample_deps (JStr ''b'') one_enabled)) (namespace (heap (snd (enable sample_deps (JStr ''b'') one_enabled)) ! 0))
   \<and> \<not> enabledFlag (heap (snd (enable sample_deps (JStr ''b'') one_enabled)) ! 0)
   \<and> enable alt_deps (JStr ''b|c'') one_enabled = (None, snd (enable alt_deps (JStr ''b|c'') one_enabled))
   \<and> 0 \<in> set (instances (snd (enable alt_deps (JStr ''b|c'') one_enabled)))
   \<and> RegExp_test (hd (names (snd (enable alt_deps (JStr ''b|c'') one_enabled)))) ''bx''
   \<and> enabledFlag (heap (snd (enable alt_deps (JStr ''b|c'') one_enabled)) ! 0)
       = enabled (snd (enable alt_deps (JStr ''b|c'') one_enabled)) (namespace (heap (snd (enable alt_deps (JStr ''b|c'') one_enabled)) ! 0))
   \<and> \<not> enabledFlag (heap (snd (enable alt_deps (JStr ''b|c'') one_enabled)) ! 0)
   \<and> (0::nat) < length (heap one_enabled)
   \<and> enabledFlag (heap (snd (createDebug sample_deps ''b'' one_enabled)) ! 0)
   \<and> enabledFlag (heap (snd (extend sample_deps 0 ''b'' None one_enabled)) ! 0)
   \<and> enabledFlag (heap (snd (destroy 0 one_enabled)) ! 0)
   \<and> enabledFlag (heap (debug_call sample_deps 0 [JStr ''x''] 5 one_enabled) ! 0)"
proof -
  have wf: "wf_state one_enabled" by (simp add: one_enabled_eq wf_state_def)
  have ok: "enable sample_deps (JStr ''b'') one_enabled = (None, snd (enable sample_deps (JStr ''b'') one_enabled))"
    by (simp add: one_enabled_eq enable_eval)
  have mem: "0 \<in> set (instances (snd (enable sample_deps (JStr ''b'') one_enabled)))"
    by (simp add: one_enabled_eq enable_eval set_enabled_def)
  have off: "\<not> enabledFlag (heap (snd (enable sample_deps (JStr ''b'') one_enabled)) ! 0)"
    by (simp add: one_enabled_eq enable_eval set_enabled_def enabled_def RegExp_test_def)
  have ok2: "enable alt_deps (JStr ''b|c'') one_enabled = (None, snd (enable alt_deps (JStr ''b|c'') one_enabled))"
    by (simp add: alt_enable_eq)
  have mem2: "0 \<in> set (instances (snd (enable alt_deps (JStr ''b|c'') one_enabled)))"
    by (simp add: alt_enable_eq)
  have off2: "\<not> enabledFlag (heap (snd (enable alt_deps (JStr ''b|c'') one_enabled)) ! 0)"
    by (simp add: alt_enable_eq)
  have rule2: "RegExp_test (hd (names (snd (enable alt_deps (JStr ''b|c'') one_enabled)))) ''bx''"
    by (simp add: alt_enable_eq RegExp_test_def alt_bc_def)
  have lt: "(0::nat) < length (heap one_enabled)" by (simp add: one_enabled_eq)
  have on: "enabledFlag (heap one_enabled ! 0)" by (simp add: one_enabled_eq)
  show ?thesis
    using wf ok mem off ok2 mem2 off2 rule2 lt on
      enable_recomputes_every_flag [OF wf, of sample_deps "JStr ''b''"
        "snd (enable sample_deps (JStr ''b'') one_enabled)" 0 "''b''" 0 "''b''" None
        "[JStr ''x'']" 5]
      enable_recomputes_every_flag [OF wf, of alt_deps "JStr ''b|c''"
        "snd (enable alt_deps (JStr ''b|c'') one_enabled)" 0 "''b''" 0 "''b''" None
        "[JStr ''x'']" 5]
    by simp
qed

text \<open>
  Claim C6 as stated fails when \<open>enable\<close> throws. The token \<open>+\<close> compiles to the pattern
  \<open>^+$\<close>, a syntax error: the rules have been reset, the loop over the registry is not
  reached, and the instance \<open>a\<close> keeps a flag that \<open>enabled\<close> no longer computes.
\<close>

theorem enable_throw_leaves_flag_stale:
  "wf_state one_enabled
   \<and> fst (enable sample_deps (JStr ''+'') one_enabled) = Some SyntaxError
   \<and> instances (snd (enable sample_deps (JStr ''+'') one_enabled)) = [0]
   \<and> names (snd (enable sample_deps (JStr ''+'') one_enabled)) = []
   \<and> skips (snd (enable sample_deps (JStr ''+'') one_enabled)) = []
   \<and> namespace (heap (snd (enable sample_deps (JStr ''+'') one_enabled)) ! 0) = ''a''
   \<and> enabledFlag (heap (snd (enable sample_deps (JStr ''+'') one_enabled)) ! 0)
   \<and> \<not> enabled (snd (enable sample_deps (JStr ''+'') one_enabled)) ''a''"
  by (simp add: one_enabled_eq wf_state_def enable_def updateNamespacesEnv_def
      js_split.simps is_sep_def is_space_def star_to_regex_def RegExp_new_def rx_parse.simps
      quant_char_def bracket_char_def backslash_def enabled_def)

section \<open>Calling a disabled instance\<close>

lemma one_disabled_eq:
  "one_disabled = \<lparr>env_DEBUG = None, names = [], skips = [], formatters = (\<lambda>c. None),
     heap = [\<lparr>namespace = ''web'', enabledFlag = False, color = 3, log = None, prevTime = None\<rparr>],
     instances = [0], clock_reads = 0, emitted = []\<rparr>"
  by (simp add: one_disabled_def createDebug_def init_def enabled_def sample_deps_def)

text \<open>
  Claim C5. A call of an instance whose flag is false returns at once: the state is the
  same afterwards, so the clock has not been read, no logger has been called and the
  instance's \<open>prevTime\<close> is what it was. The format pipeline has no effect of its own in
  the model; its result is only ever passed to a logger.
\<close>

theorem debug_call_disabled:
  "a < length (heap st) \<Longrightarrow> \<not> enabledFlag (heap st ! a) \<Longrightarrow>
   debug_call X a args now st = st"
  by (simp add: debug_call_def)

text \<open>The disabled instance \<open>web\<close>, called with a template and an argument.\<close>

theorem debug_call_disabled_witness:
  "(0::nat) < length (heap one_disabled) \<and> \<not> enabledFlag (heap one_disabled ! 0)
   \<and> debug_call sample_deps 0 [JStr ''hello %s'', JStr ''x''] 1000 one_disabled = one_disabled
   \<and> clock_reads (debug_call sample_deps 0 [JStr ''hello %s'', JStr ''x''] 1000 one_disabled) = 0
   \<and> emitted (debug_call sample_deps 0 [JStr ''hello %s'', JStr ''x''] 1000 one_disabled) = []"
proof -
  have lt: "(0::nat) < length (heap one_disabled)" by (simp add: one_disabled_eq)
  have off: "\<not> enabledFlag (heap one_disabled ! 0)" by (simp add: one_disabled_eq)
  show ?thesis
    using lt off debug_call_disabled [OF lt off, of sample_deps "[JStr ''hello %s'', JStr ''x'']" 1000]
    by (simp add: one_disabled_eq)
qed

section \<open>Extending a namespace\<close>

text \<open>
  Claim C9. \<open>extend\<close> on an instance allocates one new instance, whose namespace is the
  parent's, the delimiter (\<open>":"\<close> when none is given) and the sub-namespace, whose \<open>log\<close>
  is the parent's, and whose flag is \<open>enabled\<close> of the new namespace under the current
  rules; the new instance is pushed on the registry, and the rules are unchanged.
\<close>

theorem extend_creates:
  assumes "a < length (heap st)" and "extend X a sub d st = (b, st')"
  shows "b = length (heap st)
     \<and> heap st' = heap st @
         [\<lparr>namespace = namespace (heap st ! a) @ (case d of None \<Rightarrow> '':'' | Some x \<Rightarrow> x) @ sub,
           enabledFlag = enabled st
             (namespace (heap st ! a) @ (case d of None \<Rightarrow> '':'' | Some x \<Rightarrow> x) @ sub),
           color = selectColor X
             (namespace (heap st ! a) @ (case d of None \<Rightarrow> '':'' | Some x \<Rightarrow> x) @ sub),
           log = log (heap st ! a), prevTime = None\<rparr>]
     \<and> instances st' = instances st @ [b]
     \<and> names st' = names st \<and> skips st' = skips st"
  using assms by (auto simp: extend_def createDebug_def Let_def nth_append)

text \<open>
  The disabled parent \<open>api\<close> with a \<open>log\<close> override: its child \<open>api:public\<close> is enabled
  and inherits the override; with the delimiter \<open>-\<close> the child is \<open>api-http\<close>.
\<close>

theorem extend_creates_witness:
  "(0::nat) < length (heap parent_state)
   \<and> fst (extend sample_deps 0 ''public'' None parent_state) = 1
   \<and> heap (snd (extend sample_deps 0 ''public'' None parent_state)) ! 1 =
       \<lparr>namespace = ''api:public'', enabledFlag = True, color = 10, log = Some 7, prevTime = None\<rparr>
   \<and> instances (snd (extend sample_deps 0 ''public'' None parent_state)) = [0, 1]
   \<and> \<not> enabledFlag (heap (snd (extend sample_deps 0 ''public'' None parent_state)) ! 0)
   \<and> namespace (heap (snd (extend sample_deps 0 ''http'' (Some ''-'') parent_state)) ! 1) = ''api-http''"
proof -
  have lt: "(0::nat) < length (heap parent_state)" by (simp add: parent_state_def)
  have en: "enabled parent_state ''api:public''"
    by (simp add: enabled_def parent_state_def api_rules_names api_rules_skips RegExp_test_def
        line_terminator_def)
  have h: "heap parent_state = [\<lparr>namespace = ''api'', enabledFlag = False, color = 3,
       log = Some 7, prevTime = None\<rparr>]" "instances parent_state = [0]"
    by (simp_all add: parent_state_def)
  show ?thesis
    using lt en
      extend_creates [OF lt, of sample_deps "''public''" None
        "fst (extend sample_deps 0 ''public'' None parent_state)"
        "snd (extend sample_deps 0 ''public'' None parent_state)"]
      extend_creates [OF lt, of sample_deps "''http''" "Some ''-''"
        "fst (extend sample_deps 0 ''http'' (Some ''-'') parent_state)"
        "snd (extend sample_deps 0 ''http'' (Some ''-'') parent_state)"]
    by (simp add: h sample_deps_def)
qed

section \<open>enable without a string\<close>

lemma set_enabled_env:
  "set_enabled a (st\<lparr>env_DEBUG := e\<rparr>) = (set_enabled a st)\<lparr>env_DEBUG := e\<rparr>"
  by (simp add: set_enabled_def enabled_def)

lemma fold_set_enabled_env:
  "fold set_enabled as (st\<lparr>env_DEBUG := e\<rparr>) = (fold set_enabled as st)\<lparr>env_DEBUG := e\<rparr>"
  by (induction as arbitrary: st) (simp_all add: set_enabled_env)

lemma recompute_env: "recompute (st\<lparr>env_DEBUG := e\<rparr>) = (recompute st)\<lparr>env_DEBUG := e\<rparr>"
  by (simp add: recompute_def fold_set_enabled_env)

lemma js_split_empty: "js_split [] = [[]]"
  by (simp add: js_split.simps)

lemma enable_no_tokens:
  "(\<forall>s. v \<noteq> JStr s) \<or> v = JStr [] \<Longrightarrow>
   enable X v st =
     (None, recompute (st\<lparr>env_DEBUG := (if truthy v then Some v else None), names := [], skips := []\<rparr>))"
  by (cases v) (auto simp: enable_def updateNamespacesEnv_def js_split_empty star_to_regex_def)

text \<open>
  Claim C10, as amended. \<open>enable\<close> with an argument that is not a string returns
  normally with both rule lists empty, and every registered instance whose namespace
  does not end in \<open>*\<close> is disabled afterwards. The state it leaves is the one
  \<open>enable("")\<close> leaves except for the environment variable: an argument that is truthy is
  stored there, any other deletes the variable, as \<open>""\<close> does.
\<close>

theorem enable_non_string:
  assumes ns: "\<forall>s. v \<noteq> JStr s" and wf: "wf_state st"
  shows "fst (enable X v st) = None
     \<and> names (snd (enable X v st)) = [] \<and> skips (snd (enable X v st)) = []
     \<and> snd (enable X v st) =
         (snd (enable X (JStr []) st))\<lparr>env_DEBUG := (if truthy v then Some v else None)\<rparr>
     \<and> (\<forall>a\<in>set (instances (snd (enable X v st))).
           \<not> ends_with_star (namespace (heap (snd (enable X v st)) ! a)) \<longrightarrow>
           \<not> enabledFlag (heap (snd (enable X v st)) ! a))"
proof -
  let ?e = "if truthy v then Some v else None"
  let ?s = "st\<lparr>env_DEBUG := ?e, names := [], skips := []\<rparr>"
  have ev: "enable X v st = (None, recompute ?s)"
    using ns by (simp add: enable_no_tokens)
  have e0: "enable X (JStr []) st = (None, recompute (st\<lparr>env_DEBUG := None, names := [], skips := []\<rparr>))"
    by (simp add: enable_no_tokens)
  have "?s = (st\<lparr>env_DEBUG := None, names := [], skips := []\<rparr>)\<lparr>env_DEBUG := ?e\<rparr>" by simp
  then have same: "recompute ?s
      = (recompute (st\<lparr>env_DEBUG := None, names := [], skips := []\<rparr>))\<lparr>env_DEBUG := ?e\<rparr>"
    by (metis recompute_env)
  have flags: "\<forall>a\<in>set (instances (recompute ?s)).
      \<not> ends_with_star (namespace (heap (recompute ?s) ! a)) \<longrightarrow>
      \<not> enabledFlag (heap (recompute ?s) ! a)"
  proof (intro ballI impI)
    fix a assume a: "a \<in> set (instances (recompute ?s))"
      and nstar: "\<not> ends_with_star (namespace (heap (recompute ?s) ! a))"
    have mem: "a \<in> set (instances ?s)" using a by (simp add: recompute_fields)
    then have lt: "a < length (heap ?s)" using wf by (simp add: wf_state_def list_all_iff)
    have nth: "heap (recompute ?s) ! a
        = (heap ?s ! a)\<lparr>enabledFlag := enabled ?s (namespace (heap ?s ! a))\<rparr>"
      using recompute_nth [OF lt] mem by simp
    show "\<not> enabledFlag (heap (recompute ?s) ! a)"
      using nstar unfolding nth by (simp add: enabled_def ends_with_star_def)
  qed
  show ?thesis
    unfolding ev e0 using same flags by (simp add: recompute_fields)
qed

text \<open>
  \<open>enable(undefined)\<close> switches the enabled instance \<open>a\<close> off and leaves exactly the state
  of \<open>enable("")\<close>; \<open>enable(5)\<close> does the same but for the variable, which holds \<open>5\<close>.
\<close>

theorem enable_non_string_witness:
  "(\<forall>s. JUndefined \<noteq> JStr s) \<and> (\<forall>s. JNum 5 \<noteq> JStr s) \<and> wf_state one_enabled
   \<and> enabledFlag (heap one_enabled ! 0)
   \<and> fst (enable sample_deps JUndefined one_enabled) = None
   \<and> names (snd (enable sample_deps JUndefined one_enabled)) = []
   \<and> skips (snd (enable sample_deps JUndefined one_enabled)) = []
   \<and> snd (enable sample_deps JUndefined one_enabled) = snd (enable sample_deps (JStr []) one_enabled)
   \<and> 0 \<in> set (instances (snd (enable sample_deps JUndefined one_enabled)))
   \<and> namespace (heap (snd (enable sample_deps JUndefined one_enabled)) ! 0) = ''a''
   \<and> \<not> enabledFlag (heap (snd (enable sample_deps JUndefined one_enabled)) ! 0)
   \<and> fst (enable sample_deps (JNum 5) one_enabled) = None
   \<and> names (snd (enable sample_deps (JNum 5) one_enabled)) = []
   \<and> skips (snd (enable sample_deps (JNum 5) one_enabled)) = []
   \<and> snd (enable sample_deps (JNum 5) one_enabled)
       = (snd (enable sample_deps (JStr []) one_enabled))\<lparr>env_DEBUG := Some (JNum 5)\<rparr>
   \<and> \<not> enabledFlag (heap (snd (enable sample_deps (JNum 5) one_enabled)) ! 0)"
proof -
  have ns: "\<forall>s. JUndefined \<noteq> JStr s" by simp
  have n5: "\<forall>s. JNum 5 \<noteq> JStr s" by simp
  have wf: "wf_state one_enabled" by (simp add: one_enabled_eq wf_state_def)
  have e0: "snd (enable sample_deps (JStr []) one_enabled) =
     \<lparr>env_DEBUG = None, names = [], skips = [], formatters = (\<lambda>c. None),
       heap = [\<lparr>namespace = ''a'', enabledFlag = False, color = 1, log = None, prevTime = None\<rparr>],
       instances = [0], clock_reads = 0, emitted = []\<rparr>"
    by (simp add: enable_no_tokens one_enabled_eq recompute_def set_enabled_def enabled_def)
  show ?thesis
    using ns n5 wf enable_non_string [OF ns wf, of sample_deps]
      enable_non_string [OF n5 wf, of sample_deps]
    by (simp add: e0) (simp add: one_enabled_eq)
qed

text \<open>
  Claim C10 as stated fails for a truthy argument: \<open>enable(5)\<close> stores \<open>5\<close> in the
  environment variable, where \<open>enable("")\<close> deletes it, so the two calls do not leave the
  same state.
\<close>

theorem enable_non_string_keeps_env:
  "env_DEBUG (snd (enable sample_deps (JNum 5) (init None))) = Some (JNum 5)
   \<and> env_DEBUG (snd (enable sample_deps (JStr []) (init None))) = None
   \<and> snd (enable sample_deps (JNum 5) (init None)) \<noteq> snd (enable sample_deps (JStr []) (init None))"
proof -
  have a: "env_DEBUG (snd (enable sample_deps (JNum 5) (init None))) = Some (JNum 5)"
    by (simp add: enable_no_tokens recompute_fields)
  have b: "env_DEBUG (snd (enable sample_deps (JStr []) (init None))) = None"
    by (simp add: enable_no_tokens recompute_fields)
  from a b have "snd (enable sample_deps (JNum 5) (init None))
      \<noteq> snd (enable sample_deps (JStr []) (init None))"
    by (metis option.distinct(1))
  with a b show ?thesis by simp
qed


section \<open>The format pre-pass\<close>

lemma percent_not_letter: "\<not> is_letter CHR ''%''"
  by (simp add: is_letter_def)

lemma letter_not_percent: "is_letter d \<Longrightarrow> d \<noteq> CHR ''%''"
  using percent_not_letter by auto

lemma rd_percent:
  "replace_directives F (CHR ''%'' # CHR ''%'' # cs) i args =
     (case replace_directives F cs i args of
        (out, j, as) \<Rightarrow> (CHR ''%'' # CHR ''%'' # out, j, as))"
  by simp

lemma rd_none:
  "is_letter d \<Longrightarrow> F d = None \<Longrightarrow>
   replace_directives F (CHR ''%'' # d # cs) i args =
     (case replace_directives F cs (i + 1) args of
        (out, j, as) \<Rightarrow> (CHR ''%'' # d # out, j, as))"
  by (simp add: letter_not_percent)

lemma rd_some:
  "is_letter d \<Longrightarrow> F d = Some f \<Longrightarrow>
   replace_directives F (CHR ''%'' # d # cs) i args =
     (case replace_directives F cs i (splice1 (i + 1) args) of
        (out, j, as) \<Rightarrow> (f (arg_at args (i + 1)) @ out, j, as))"
  by (simp add: letter_not_percent)

lemma rd_plain:
  assumes "\<not> (c = CHR ''%'' \<and> (is_letter d \<or> d = CHR ''%''))"
  shows "replace_directives F (c # d # cs) i args =
     (case replace_directives F (d # cs) i args of (out, j, as) \<Rightarrow> (c # out, j, as))"
  using assms by (subst replace_directives.simps) (simp only: if_False)

lemma boundary_step:
  "c = CHR ''%'' \<and> (is_letter d \<or> d = CHR ''%'') \<Longrightarrow> boundary (c # d # cs) = boundary cs"
  by simp

lemma boundary_plain:
  assumes "\<not> (c = CHR ''%'' \<and> (is_letter d \<or> d = CHR ''%''))"
  shows "boundary (c # d # cs) = boundary (d # cs)"
  using assms by (subst boundary.simps) (simp only: if_False)

lemma count_plain:
  assumes "\<not> (c = CHR ''%'' \<and> (is_letter d \<or> d = CHR ''%''))"
  shows "directive_count (c # d # cs) = directive_count (d # cs)"
  using assms by (subst directive_count.simps) (simp only: if_False)

lemma count_percent: "directive_count (CHR ''%'' # CHR ''%'' # cs) = directive_count cs"
  by simp

lemma count_letter: "is_letter d \<Longrightarrow> directive_count (CHR ''%'' # d # cs) = 1 + directive_count cs"
  by (simp add: letter_not_percent)

declare replace_directives.simps(3) [simp del] boundary.simps(3) [simp del]
  directive_count.simps(3) [simp del]

lemma replace_directives_append:
  "boundary pre \<Longrightarrow>
   replace_directives F (pre @ post) i args =
     (case replace_directives F pre i args of
        (o1, i1, a1) \<Rightarrow>
          (case replace_directives F post i1 a1 of (o2, i2, a2) \<Rightarrow> (o1 @ o2, i2, a2)))"
proof (induction pre arbitrary: i args rule: boundary.induct)
  case 1
  then show ?case by (simp split: prod.splits)
next
  case (2 c)
  then show ?case by (cases post) (simp_all add: rd_plain split: prod.splits)
next
  case (3 c d cs)
  show ?case
  proof (cases "c = CHR ''%'' \<and> (is_letter d \<or> d = CHR ''%'')")
    case True
    then have b: "boundary cs" using "3.prems" by (simp add: boundary_step)
    note IH = "3.IH"(1) [OF True b]
    show ?thesis
    proof (cases "d = CHR ''%''")
      case pc: True
      show ?thesis using True pc IH [of i args]
        by (simp add: rd_percent split: prod.splits)
    next
      case nl: False
      then have l: "is_letter d" using True by simp
      show ?thesis
      proof (cases "F d")
        case None
        show ?thesis using True IH [of "i + 1" args]
          by (simp add: rd_none [where F = F and d = d, OF l None] split: prod.splits)
      next
        case (Some f)
        show ?thesis using True IH [of i "splice1 (i + 1) args"]
          by (simp add: rd_some [where F = F and d = d, OF l Some] split: prod.splits)
      qed
    qed
  next
    case False
    then have b: "boundary (d # cs)" using "3.prems" by (simp add: boundary_plain)
    show ?thesis using "3.IH"(2) [OF False b, of i args]
      by (simp add: rd_plain [OF False] split: prod.splits)
  qed
qed

lemma replace_directives_drop:
  "replace_directives F t i args = (out, j, as) \<Longrightarrow>
   drop (j + 1) as = drop (i + 1 + directive_count t) args"
proof (induction F t i args arbitrary: out j as rule: replace_directives.induct)
  case (1 F i args)
  then show ?case by simp
next
  case (2 F c i args)
  then show ?case by auto
next
  case (3 F c d cs i args)
  show ?case
  proof (cases "c = CHR ''%'' \<and> (is_letter d \<or> d = CHR ''%'')")
    case True
    show ?thesis
    proof (cases "d = CHR ''%''")
      case pc: True
      obtain o' where r: "replace_directives F cs i args = (o', j, as)"
        using "3.prems" True pc by (auto simp: rd_percent split: prod.splits)
      show ?thesis using "3.IH"(1) [OF True pc r] True pc by (simp add: count_percent)
    next
      case nl: False
      then have l: "is_letter d" using True by simp
      show ?thesis
      proof (cases "F d")
        case None
        obtain o' where r: "replace_directives F cs (i + 1) args = (o', j, as)"
          using "3.prems" True by (auto simp: rd_none [where F = F and d = d, OF l None] split: prod.splits)
        show ?thesis using "3.IH"(2) [OF True nl None r] True l by (simp add: count_letter)
      next
        case (Some f)
        obtain o' where r: "replace_directives F cs i (splice1 (i + 1) args) = (o', j, as)"
          using "3.prems" True by (auto simp: rd_some [where F = F and d = d, OF l Some] split: prod.splits)
        have "drop (i + 1 + directive_count cs) (splice1 (i + 1) args)
            = drop (i + 1 + (1 + directive_count cs)) args"
          by (cases "i + 1 \<le> length args") (simp_all add: splice1_def add.commute)
        then show ?thesis using "3.IH"(3) [OF True nl Some r] True l by (simp add: count_letter)
      qed
    qed
  next
    case False
    obtain o' where r: "replace_directives F (d # cs) i args = (o', j, as)"
      using "3.prems" by (auto simp: rd_plain [OF False] split: prod.splits)
    show ?thesis using "3.IH"(4) [OF False r] by (simp add: count_plain [OF False])
  qed
qed

lemma arg_at_drop: "arg_at xs n = (case drop n xs of [] \<Rightarrow> JUndefined | x # _ \<Rightarrow> x)"
proof (cases "n < length xs")
  case True
  then show ?thesis by (simp add: arg_at_def Cons_nth_drop_Suc [symmetric])
next
  case False
  then show ?thesis by (simp add: arg_at_def)
qed


lemma applyFormatters_string:
  "coerce X a = JStr t \<Longrightarrow>
   applyFormatters X F (a # vals) =
     (case replace_directives F t 0 (JStr t # vals) of (out, j, as) \<Rightarrow> JStr out # tl as)"
  by (simp add: applyFormatters_def)

lemma arg_at_Cons: "arg_at (x # xs) (n + 1) = arg_at (y # xs) (n + 1)"
  by (simp add: arg_at_def)

lemma is_sample: "coerce sample_deps v = v"
  by (simp add: sample_deps_def)

lemma letters: "is_letter CHR ''q''" "is_letter CHR ''O''" "is_letter CHR ''d''" "\<not> is_letter CHR '' ''"
  by (simp_all add: is_letter_def)

text \<open>
  Claim C7. Where the scan of the template reaches a \<open>%\<close> and a letter that has a
  formatter, the formatter is applied to the argument at the cursor, which is the
  positional argument of that directive's rank in the call; its result stands in the
  template in place of the directive, and the scan goes on with that argument spliced out
  of the argument list.
\<close>

theorem applyFormatters_custom_formatter:
  assumes t: "coerce X a = JStr (pre @ CHR ''%'' # l # post)"
    and b: "boundary pre" and l: "is_letter l" and f: "F l = Some f"
    and r1: "replace_directives F pre 0 (coerce X a # vals) = (o1, i1, a1)"
    and r2: "replace_directives F post i1 (splice1 (i1 + 1) a1) = (o2, i2, a2)"
  shows "applyFormatters X F (a # vals) = JStr (o1 @ f (arg_at a1 (i1 + 1)) @ o2) # tl a2
     \<and> arg_at a1 (i1 + 1) = arg_at (a # vals) (directive_count pre + 1)"
proof -
  let ?args = "coerce X a # vals"
  have step: "replace_directives F (CHR ''%'' # l # post) i1 a1
      = (f (arg_at a1 (i1 + 1)) @ o2, i2, a2)"
    using r2 by (simp add: rd_some [where F = F and d = l, OF l f])
  have whole: "replace_directives F (pre @ CHR ''%'' # l # post) 0 ?args
      = (o1 @ f (arg_at a1 (i1 + 1)) @ o2, i2, a2)"
    using r1 step by (simp add: replace_directives_append [OF b])
  have res: "applyFormatters X F (a # vals) = JStr (o1 @ f (arg_at a1 (i1 + 1)) @ o2) # tl a2"
    using whole t by (simp add: applyFormatters_string [OF t])
  have "drop (i1 + 1) a1 = drop (directive_count pre + 1) ?args"
    using replace_directives_drop [OF r1] by simp
  then have "arg_at a1 (i1 + 1) = arg_at ?args (directive_count pre + 1)"
    by (simp only: arg_at_drop)
  also have "\<dots> = arg_at (a # vals) (directive_count pre + 1)"
    by (rule arg_at_Cons)
  finally show ?thesis using res by simp
qed

text \<open>
  The template \<open>%q %% %O %d\<close> with the arguments \<open>a\<close>, \<open>b\<close>, \<open>3\<close>: \<open>%O\<close> is the second
  directive, its formatter gets \<open>b\<close>, and \<open>b\<close> leaves the argument list.
\<close>

theorem applyFormatters_custom_formatter_witness:
  "coerce sample_deps (JStr ''%q %% %O %d'') = JStr (''%q %% '' @ CHR ''%'' # CHR ''O'' # '' %d'')
   \<and> boundary ''%q %% '' \<and> is_letter CHR ''O''
   \<and> sample_formatters CHR ''O'' = Some angle
   \<and> replace_directives sample_formatters ''%q %% '' 0
         [JStr ''%q %% %O %d'', JStr ''a'', JStr ''b'', JNum 3]
       = (''%q %% '', 1, [JStr ''%q %% %O %d'', JStr ''a'', JStr ''b'', JNum 3])
   \<and> replace_directives sample_formatters '' %d'' 1 [JStr ''%q %% %O %d'', JStr ''a'', JNum 3]
       = ('' %d'', 2, [JStr ''%q %% %O %d'', JStr ''a'', JNum 3])
   \<and> applyFormatters sample_deps sample_formatters
         [JStr ''%q %% %O %d'', JStr ''a'', JStr ''b'', JNum 3]
       = [JStr ''%q %% <b> %d'', JStr ''a'', JNum 3]"
proof -
  have t: "coerce sample_deps (JStr ''%q %% %O %d'')
      = JStr (''%q %% '' @ CHR ''%'' # CHR ''O'' # '' %d'')"
    by (simp add: is_sample)
  have b: "boundary ''%q %% ''" by (simp add: boundary.simps letters)
  have l: "is_letter CHR ''O''" by (rule letters)
  have f: "sample_formatters CHR ''O''
      = Some angle"
    by (simp add: sample_formatters_def)
  have r1: "replace_directives sample_formatters ''%q %% '' 0
        (coerce sample_deps (JStr ''%q %% %O %d'') # [JStr ''a'', JStr ''b'', JNum 3])
      = (''%q %% '', 1, [JStr ''%q %% %O %d'', JStr ''a'', JStr ''b'', JNum 3])"
    by (simp add: is_sample replace_directives.simps letters sample_formatters_def)
  have r2: "replace_directives sample_formatters '' %d'' 1
        (splice1 (1 + 1) [JStr ''%q %% %O %d'', JStr ''a'', JStr ''b'', JNum 3])
      = ('' %d'', 2, [JStr ''%q %% %O %d'', JStr ''a'', JNum 3])"
    by (simp add: splice1_def replace_directives.simps letters sample_formatters_def)
  show ?thesis
    using t b l f r1 r2 applyFormatters_custom_formatter [OF t b l f r1 r2]
    by (simp add: arg_at_def is_sample splice1_def)
qed

text \<open>
  Claim C8. Where the scan reaches \<open>%%\<close>, or a \<open>%\<close> and a letter without a formatter, the
  two characters stay in the template and the argument list is passed on as it is; the
  cursor moves on for the letter and stays for \<open>%%\<close>. \<open>applyFormatters\<close> has no
  throwing path of its own: it is a total function of its arguments.
\<close>

theorem applyFormatters_literal_passthrough:
  assumes t: "coerce X a = JStr (pre @ CHR ''%'' # d # post)"
    and b: "boundary pre" and d: "d = CHR ''%'' \<or> (is_letter d \<and> F d = None)"
    and r1: "replace_directives F pre 0 (coerce X a # vals) = (o1, i1, a1)"
    and r2: "replace_directives F post (if d = CHR ''%'' then i1 else i1 + 1) a1 = (o2, i2, a2)"
  shows "applyFormatters X F (a # vals) = JStr (o1 @ CHR ''%'' # d # o2) # tl a2"
proof -
  let ?args = "coerce X a # vals"
  have step: "replace_directives F (CHR ''%'' # d # post) i1 a1 = (CHR ''%'' # d # o2, i2, a2)"
  proof (cases "d = CHR ''%''")
    case True
    then show ?thesis using r2 by (simp add: rd_percent)
  next
    case False
    then have l: "is_letter d" and n: "F d = None" using d by simp_all
    show ?thesis using r2 False by (simp add: rd_none [where F = F and d = d, OF l n])
  qed
  have whole: "replace_directives F (pre @ CHR ''%'' # d # post) 0 ?args
      = (o1 @ CHR ''%'' # d # o2, i2, a2)"
    using r1 step by (simp add: replace_directives_append [OF b])
  show ?thesis using whole t by (simp add: applyFormatters_string [OF t])
qed

text \<open>The templates \<open>a %% b\<close> and \<open>%q\<close>, each with one argument, come back unchanged.\<close>

theorem applyFormatters_literal_passthrough_witness:
  "coerce sample_deps (JStr ''a %% b'') = JStr (''a '' @ CHR ''%'' # CHR ''%'' # '' b'')
   \<and> boundary ''a ''
   \<and> (CHR ''%'' = CHR ''%'' \<or> False)
   \<and> applyFormatters sample_deps sample_formatters [JStr ''a %% b'', JStr ''x'']
       = [JStr ''a %% b'', JStr ''x'']
   \<and> coerce sample_deps (JStr ''%q'') = JStr ([] @ CHR ''%'' # CHR ''q'' # [])
   \<and> boundary []
   \<and> is_letter CHR ''q'' \<and> sample_formatters CHR ''q'' = None
   \<and> applyFormatters sample_deps sample_formatters [JStr ''%q'', JStr ''x'']
       = [JStr ''%q'', JStr ''x'']"
proof -
  have t1: "coerce sample_deps (JStr ''a %% b'') = JStr (''a '' @ CHR ''%'' # CHR ''%'' # '' b'')"
    by (simp add: is_sample)
  have b1: "boundary ''a ''" by (simp add: boundary.simps)
  have d1: "CHR ''%'' = CHR ''%'' \<or> (is_letter CHR ''%'' \<and> sample_formatters CHR ''%'' = None)"
    by simp
  have p1: "replace_directives sample_formatters ''a '' 0
        (coerce sample_deps (JStr ''a %% b'') # [JStr ''x''])
      = (''a '', 0, [JStr ''a %% b'', JStr ''x''])"
    by (simp add: is_sample replace_directives.simps)
  have q1: "replace_directives sample_formatters '' b''
        (if CHR ''%'' = CHR ''%'' then 0 else 0 + 1) [JStr ''a %% b'', JStr ''x'']
      = ('' b'', 0, [JStr ''a %% b'', JStr ''x''])"
    by (simp add: replace_directives.simps letters)
  have t2: "coerce sample_deps (JStr ''%q'') = JStr ([] @ CHR ''%'' # CHR ''q'' # [])"
    by (simp add: is_sample)
  have b2: "boundary []" by simp
  have l2: "is_letter CHR ''q''" by (rule letters)
  have n2: "sample_formatters CHR ''q'' = None" by (simp add: sample_formatters_def)
  have d2: "CHR ''q'' = CHR ''%'' \<or> (is_letter CHR ''q'' \<and> sample_formatters CHR ''q'' = None)"
    using l2 n2 by simp
  have p2: "replace_directives sample_formatters [] 0
        (coerce sample_deps (JStr ''%q'') # [JStr ''x''])
      = ([], 0, [JStr ''%q'', JStr ''x''])"
    by (simp add: is_sample)
  have q2: "replace_directives sample_formatters []
        (if CHR ''q'' = CHR ''%'' then 0 else 0 + 1) [JStr ''%q'', JStr ''x'']
      = ([], 1, [JStr ''%q'', JStr ''x''])"
    by simp
  show ?thesis
    using t1 b1 l2 n2 b2 t2
      applyFormatters_literal_passthrough [OF t1 b1 d1 p1 q1]
      applyFormatters_literal_passthrough [OF t2 b2 d2 p2 q2]
    by simp
qed

section \<open>Compiling a token\<close>

lemma star_to_regex_Nil [simp]: "star_to_regex [] = []"
  by (simp add: star_to_regex_def)

lemma star_to_regex_Cons:
  "star_to_regex (c # cs) = (if c = CHR ''*'' then ''.*?'' else [c]) @ star_to_regex cs"
  by (simp add: star_to_regex_def)

lemma rx_parse_dollar: "rx_parse ''$'' = Inr [EOL]"
  by (simp add: rx_parse.simps)

lemma rx_parse_lazy_star:
  "rx_parse (CHR ''.'' # CHR ''*'' # CHR ''?'' # r) = rx_cons (Atom AnyChar Star True) (rx_parse r)"
  by (simp add: rx_parse.simps(2) [of "CHR ''.''"] quant_char_def bracket_char_def backslash_def)

lemma rx_parse_plain:
  assumes c: "\<not> syntax_char c" and r: "r \<noteq> []" "\<not> quant_char (hd r)"
  shows "rx_parse (c # r) = rx_cons (Atom (Lit c) Once False) (rx_parse r)"
proof -
  obtain d ds where r': "r = d # ds" using r(1) by (cases r) auto
  have q: "rx_quantifier r = (Once, False, r)" using r(2) by (simp add: r')
  have n: "c \<noteq> CHR ''^''" "c \<noteq> CHR ''$''" "\<not> quant_char c" "\<not> bracket_char c"
    "c \<noteq> backslash" "c \<noteq> CHR ''.''"
    using c by (auto simp: syntax_char_def quant_char_def bracket_char_def)
  show ?thesis by (simp add: rx_parse.simps(2) [of c] n q)
qed

lemma glob_body_head:
  "\<forall>c\<in>set body. glob_char c \<Longrightarrow>
   star_to_regex body @ ''$'' \<noteq> [] \<and> \<not> quant_char (hd (star_to_regex body @ ''$''))"
  by (cases body) (auto simp: star_to_regex_Cons quant_char_def glob_char_def syntax_char_def)

lemma rx_parse_glob_body:
  "\<forall>c\<in>set body. glob_char c \<Longrightarrow>
   rx_parse (star_to_regex body @ ''$'') = Inr (map glob_term body @ [EOL])"
proof (induction body)
  case Nil
  then show ?case by (simp add: rx_parse_dollar)
next
  case (Cons c cs)
  then have IH: "rx_parse (star_to_regex cs @ ''$'') = Inr (map glob_term cs @ [EOL])" by simp
  show ?case
  proof (cases "c = CHR ''*''")
    case True
    then show ?thesis by (simp add: star_to_regex_Cons rx_parse_lazy_star IH glob_term_def)
  next
    case False
    then have p: "\<not> syntax_char c" using Cons.prems by (simp add: glob_char_def)
    have h: "star_to_regex cs @ ''$'' \<noteq> []" "\<not> quant_char (hd (star_to_regex cs @ ''$''))"
      using glob_body_head [of cs] Cons.prems by simp_all
    show ?thesis
      using False rx_parse_plain [OF p h] by (simp add: star_to_regex_Cons IH glob_term_def)
  qed
qed

lemma rx_parse_anchored:
  "\<forall>c\<in>set body. glob_char c \<Longrightarrow>
   rx_parse (''^'' @ star_to_regex body @ ''$'') = Inr (BOL # map glob_term body @ [EOL])"
  using rx_parse_glob_body [of body] by (simp add: rx_parse.simps(2) [of "CHR ''^''"])

lemma rx_run_glob:
  "rx_run (map glob_term body @ [EOL]) b n = glob_match not_terminator body n"
proof (induction not_terminator body n arbitrary: b rule: glob_match.induct)
  case (1 n)
  then show ?case by simp
next
  case (2 p ps)
  then show ?case by (simp add: glob_term_def)
next
  case (3 p ps c cs)
  then show ?case by (auto simp: glob_term_def not_terminator_def)
qed

lemma rx_search_BOL_False: "\<not> rx_search (BOL # ts) False n"
  by (induction n) simp_all

lemma rx_search_BOL: "rx_search (BOL # ts) True n = rx_run ts True n"
  by (cases n) (simp_all add: rx_search_BOL_False)

lemma glob_rule_test: "RegExp_test (glob_rule body) n = glob_match not_terminator body n"
  by (simp add: glob_rule_def RegExp_test_def rx_search_BOL rx_run_glob)

lemma RegExp_new_glob:
  assumes "\<forall>c\<in>set body. glob_char c"
  shows "RegExp_new E (''^'' @ star_to_regex body @ ''$'') = Inr (glob_rule body)"
  using rx_parse_anchored [OF assms]
  by (simp add: RegExp_new_def glob_rule_def del: append_Cons)

lemma star_to_regex_dash:
  "tok \<noteq> [] \<Longrightarrow>
   star_to_regex tok \<noteq> [] \<and> (hd (star_to_regex tok) = CHR ''-'') = (hd tok = CHR ''-'')
   \<and> (hd tok = CHR ''-'' \<longrightarrow> tl (star_to_regex tok) = star_to_regex (tl tok))"
  by (cases tok) (auto simp: star_to_regex_Cons)

lemma enable_each_glob_step:
  assumes ne: "tok \<noteq> []" and ch: "\<forall>c\<in>set tok. glob_char c"
  shows "enable_each X (star_to_regex tok # rest) st =
     enable_each X rest
       (if hd tok = CHR ''-'' then st\<lparr>skips := skips st @ [glob_rule (tl tok)]\<rparr>
        else st\<lparr>names := names st @ [glob_rule tok]\<rparr>)"
proof (cases "hd tok = CHR ''-''")
  case True
  have "\<forall>c\<in>set (tl tok). glob_char c" using ch ne by (cases tok) auto
  then have r: "RegExp_new (engine X) (''^'' @ star_to_regex (tl tok) @ ''$'') = Inr (glob_rule (tl tok))"
    by (rule RegExp_new_glob)
  show ?thesis using True star_to_regex_dash [OF ne] r
    by (simp del: append_Cons)
next
  case False
  have r: "RegExp_new (engine X) (''^'' @ star_to_regex tok @ ''$'') = Inr (glob_rule tok)"
    using ch by (rule RegExp_new_glob)
  show ?thesis using False star_to_regex_dash [OF ne] r
    by (simp del: append_Cons)
qed

lemma is_allow_deny_Nil: "\<not> is_allow []" "\<not> is_deny []"
  by (simp_all add: is_allow_def is_deny_def)

lemma enable_each_glob_all:
  "\<forall>t\<in>set toks. \<forall>c\<in>set t. glob_char c \<Longrightarrow>
   enable_each X (map star_to_regex toks) st =
     (None, st\<lparr>names := names st @ map glob_rule (filter is_allow toks),
               skips := skips st @ map (\<lambda>t. glob_rule (tl t)) (filter is_deny toks)\<rparr>)"
proof (induction toks arbitrary: st)
  case Nil
  then show ?case by simp
next
  case (Cons t ts)
  have IH: "\<And>s. enable_each X (map star_to_regex ts) s =
     (None, s\<lparr>names := names s @ map glob_rule (filter is_allow ts),
              skips := skips s @ map (\<lambda>t. glob_rule (tl t)) (filter is_deny ts)\<rparr>)"
    using Cons by simp
  show ?case
  proof (cases "t = []")
    case True
    then show ?thesis by (simp add: IH is_allow_deny_Nil)
  next
    case False
    have ch: "\<forall>c\<in>set t. glob_char c" using Cons.prems by simp
    have m: "map star_to_regex (t # ts) = star_to_regex t # map star_to_regex ts" by simp
    show ?thesis
    proof (cases "hd t = CHR ''-''")
      case True
      then have f: "filter is_allow (t # ts) = filter is_allow ts"
        "filter is_deny (t # ts) = t # filter is_deny ts"
        using False by (simp_all add: is_allow_def is_deny_def)
      show ?thesis unfolding m enable_each_glob_step [OF False ch] f
        using True by (simp add: IH)
    next
      case d: False
      then have f: "filter is_allow (t # ts) = t # filter is_allow ts"
        "filter is_deny (t # ts) = filter is_deny ts"
        using False by (simp_all add: is_allow_def is_deny_def)
      show ?thesis unfolding m enable_each_glob_step [OF False ch] f
        using d by (simp add: IH)
    qed
  qed
qed

lemma js_split_last:
  assumes "dropWhile (\<lambda>c. \<not> is_sep c) s = []"
  shows "js_split s = [takeWhile (\<lambda>c. \<not> is_sep c) s]"
  by (subst js_split.simps) (simp only: assms Let_def if_True simp_thms)

lemma js_split_more:
  assumes "dropWhile (\<lambda>c. \<not> is_sep c) s \<noteq> []"
  shows "js_split s = takeWhile (\<lambda>c. \<not> is_sep c) s
     # js_split (dropWhile is_sep (dropWhile (\<lambda>c. \<not> is_sep c) s))"
  by (subst js_split.simps) (simp only: assms Let_def if_False simp_thms)

lemma js_split_chars:
  "t \<in> set (js_split s) \<Longrightarrow> c \<in> set t \<Longrightarrow> c \<in> set s"
proof (induction s arbitrary: t rule: js_split.induct)
  case (1 s)
  let ?rest = "dropWhile (\<lambda>c. \<not> is_sep c) s"
  have piece: "c \<in> set (takeWhile (\<lambda>c. \<not> is_sep c) s) \<Longrightarrow> c \<in> set s"
    by (rule set_takeWhileD [THEN conjunct1])
  show ?case
  proof (cases "?rest = []")
    case True
    then have "t = takeWhile (\<lambda>c. \<not> is_sep c) s"
      using "1.prems"(1) by (simp only: js_split_last) simp
    then show ?thesis using "1.prems"(2) piece by simp
  next
    case False
    have "t = takeWhile (\<lambda>c. \<not> is_sep c) s \<or> t \<in> set (js_split (dropWhile is_sep ?rest))"
      using "1.prems"(1) by (simp only: js_split_more [OF False]) simp
    then show ?thesis
    proof
      assume "t = takeWhile (\<lambda>c. \<not> is_sep c) s"
      then show ?thesis using "1.prems"(2) piece by simp
    next
      assume "t \<in> set (js_split (dropWhile is_sep ?rest))"
      then have "c \<in> set (dropWhile is_sep ?rest)"
        using "1.IH" [OF refl refl False _ "1.prems"(2)] by simp
      then show ?thesis by (meson set_dropWhileD)
    qed
  qed
qed

lemma enable_glob_selector:
  assumes "\<forall>c\<in>set sel. glob_char c"
  shows "enable X (JStr sel) st =
     (None, recompute ((updateNamespacesEnv (JStr sel) st)
        \<lparr>names := map glob_rule (filter is_allow (js_split sel)),
         skips := map (\<lambda>t. glob_rule (tl t)) (filter is_deny (js_split sel))\<rparr>))"
proof -
  have "\<forall>t\<in>set (js_split sel). \<forall>c\<in>set t. glob_char c"
    using assms js_split_chars by blast
  from enable_each_glob_all [OF this]
  show ?thesis by (simp add: enable_def Let_def)
qed


lemma enable_each_append:
  "enable_each X (xs @ ys) st =
     (case enable_each X xs st of
        (None, s1) \<Rightarrow> enable_each X ys s1
      | (Some e, s1) \<Rightarrow> (Some e, s1))"
  by (induction xs arbitrary: st) (simp_all split: sum.splits)

lemma glob_chars_sample:
  "list_all glob_char ''-api:*:db''" "list_all glob_char ''api:*, -api:internal,,web''"
  by (simp_all add: glob_char_def syntax_char_def backslash_def)

lemma split_sample:
  "js_split ''api:*, -api:internal,,web'' = [''api:*'', ''-api:internal'', ''web'']"
  by (simp add: js_split.simps is_sep_def is_space_def)

text \<open>
  Claim C3, as amended. Take a non-empty token made of \<open>*\<close> and of characters that are
  not syntax characters of the pattern language. When the loop over the tokens reaches
  it (it does unless an earlier token made \<open>new RegExp\<close> throw), the loop appends one rule
  and goes on with the remaining tokens: a deny rule over the rest of the token when it
  starts with \<open>-\<close>, an allow rule over the token otherwise. That rule accepts exactly the
  namespaces that match it as a glob, anchored at both ends, where every character
  stands for itself and \<open>*\<close> for any sequence of characters other than line terminators.
  For a selector made of such characters only, \<open>enable\<close> returns normally and the two
  lists hold these rules for all of its tokens, in the order of the tokens.
\<close>

theorem enable_token_glob:
  "(\<forall>n. RegExp_test (glob_rule body) n = glob_match not_terminator body n)
   \<and> (tok \<noteq> [] \<and> (\<forall>c\<in>set tok. glob_char c) \<longrightarrow>
        enable_each X (star_to_regex tok # rest) st =
          enable_each X rest
            (if hd tok = CHR ''-'' then st\<lparr>skips := skips st @ [glob_rule (tl tok)]\<rparr>
             else st\<lparr>names := names st @ [glob_rule tok]\<rparr>))
   \<and> ((\<forall>c\<in>set sel. glob_char c) \<longrightarrow>
        enable X (JStr sel) s0 =
          (None, recompute ((updateNamespacesEnv (JStr sel) s0)
             \<lparr>names := map glob_rule (filter is_allow (js_split sel)),
              skips := map (\<lambda>t. glob_rule (tl t)) (filter is_deny (js_split sel))\<rparr>)))"
  using glob_rule_test enable_each_glob_step enable_glob_selector by blast

text \<open>
  The token \<open>-api:*:db\<close>, followed by a token that the engine compiles: a deny rule for
  \<open>api:*:db\<close>, whose wildcard spans segments, and the loop goes on. The selector
  \<open>api:*, -api:internal,,web\<close>: two allow rules and a deny rule.
\<close>

theorem enable_token_glob_witness:
  "''-api:*:db'' \<noteq> [] \<and> list_all glob_char ''-api:*:db''
   \<and> list_all glob_char ''api:*, -api:internal,,web''
   \<and> RegExp_test (glob_rule ''api:*:db'') ''api:v1:x:db''
   \<and> \<not> RegExp_test (glob_rule ''api:*:db'') ''api:v1:dbx''
   \<and> enable_each alt_deps [star_to_regex ''-api:*:db'', ''b|c''] (init None)
       = (None, (init None)\<lparr>names := [\<lparr>source = ''^b|c$'', prog = Native alt_bc\<rparr>],
                            skips := [glob_rule ''api:*:db'']\<rparr>)
   \<and> fst (enable sample_deps (JStr ''api:*, -api:internal,,web'') (init None)) = None
   \<and> names (snd (enable sample_deps (JStr ''api:*, -api:internal,,web'') (init None)))
       = [glob_rule ''api:*'', glob_rule ''web'']
   \<and> skips (snd (enable sample_deps (JStr ''api:*, -api:internal,,web'') (init None)))
       = [glob_rule ''api:internal'']"
proof -
  have ne: "''-api:*:db'' \<noteq> []" by simp
  have c1: "\<forall>c\<in>set ''-api:*:db''. glob_char c"
    using glob_chars_sample(1) by (simp only: list_all_iff)
  have c2: "\<forall>c\<in>set ''api:*, -api:internal,,web''. glob_char c"
    using glob_chars_sample(2) by (simp only: list_all_iff)
  have g1: "glob_match not_terminator ''api:*:db'' ''api:v1:x:db''"
    by (simp add: not_terminator_def line_terminator_def)
  have g2: "\<not> glob_match not_terminator ''api:*:db'' ''api:v1:dbx''"
    by (simp add: not_terminator_def line_terminator_def)
  have rest: "enable_each alt_deps [''b|c''] ((init None)\<lparr>skips := skips (init None) @ [glob_rule ''api:*:db'']\<rparr>)
      = (None, (init None)\<lparr>names := [\<lparr>source = ''^b|c$'', prog = Native alt_bc\<rparr>],
                            skips := [glob_rule ''api:*:db'']\<rparr>)"
    by (simp add: init_def RegExp_new_def rx_parse.simps quant_char_def bracket_char_def
        backslash_def alt_deps_def sample_deps_def)
  note T1 = enable_token_glob [where body = "''api:*:db''" and tok = "''-api:*:db''"
      and X = alt_deps and rest = "[''b|c'']" and st = "init None"]
  note T2 = enable_token_glob [where sel = "''api:*, -api:internal,,web''"
      and X = sample_deps and ?s0.0 = "init None"]
  have step: "enable_each alt_deps (star_to_regex ''-api:*:db'' # [''b|c'']) (init None)
      = (None, (init None)\<lparr>names := [\<lparr>source = ''^b|c$'', prog = Native alt_bc\<rparr>],
                            skips := [glob_rule ''api:*:db'']\<rparr>)"
    using T1 ne c1 rest by simp
  have whole: "enable sample_deps (JStr ''api:*, -api:internal,,web'') (init None) =
      (None, recompute ((updateNamespacesEnv (JStr ''api:*, -api:internal,,web'') (init None))
         \<lparr>names := map glob_rule (filter is_allow (js_split ''api:*, -api:internal,,web'')),
          skips := map (\<lambda>t. glob_rule (tl t)) (filter is_deny (js_split ''api:*, -api:internal,,web''))\<rparr>))"
    using T2 c2 by blast
  have tests: "RegExp_test (glob_rule ''api:*:db'') ''api:v1:x:db''"
    "\<not> RegExp_test (glob_rule ''api:*:db'') ''api:v1:dbx''"
    using T1 g1 g2 by simp_all
  show ?thesis
    using ne glob_chars_sample tests step
    by (simp add: whole split_sample is_allow_def is_deny_def recompute_fields)
qed

text \<open>
  Claim C3 as stated fails: the token is not escaped, so the dot of \<open>a.b\<close> matches any
  character and the rule accepts \<open>axb\<close>; and the wildcard compiles to a dot, which does
  not match a line terminator, so the rule of \<open>*\<close> rejects a namespace with a newline.
\<close>

theorem enable_token_not_glob:
  "RegExp_test (hd (names (snd (enable sample_deps (JStr ''a.b'') (init None))))) ''axb''
   \<and> \<not> glob_match any_char ''a.b'' ''axb''
   \<and> \<not> RegExp_test (hd (names (snd (enable sample_deps (JStr ''*'') (init None)))))
         [CHR ''a'', CHR 0x0A, CHR ''b'']
   \<and> glob_match any_char ''*'' [CHR ''a'', CHR 0x0A, CHR ''b'']"
  by (simp add: enable_eval RegExp_test_def line_terminator_def any_char_def)

section \<open>disable\<close>

lemma disable_clears_rules:
  "names (snd (disable X st)) = [] \<and> skips (snd (disable X st)) = []
   \<and> (\<exists>s. fst (disable X st) = Inr s)"
  by (simp add: disable_def enable_no_tokens recompute_fields)

lemma inner_wildcard_eq:
  "inner_wildcard X = \<lparr>env_DEBUG = Some (JStr ''a*b''),
     names = [\<lparr>source = ''^a.*?b$'',
       prog = Terms [BOL, Atom (Lit CHR ''a'') Once False, Atom AnyChar Star True,
         Atom (Lit CHR ''b'') Once False, EOL]\<rparr>],
     skips = [], formatters = (\<lambda>c. None), heap = [], instances = [], clock_reads = 0,
     emitted = []\<rparr>"
  by (simp add: inner_wildcard_def enable_eval)

lemma inner_wildcard_disable:
  "disable X (inner_wildcard X)
     = (Inr ''a.*?b'', (inner_wildcard X)\<lparr>env_DEBUG := None, names := []\<rparr>)"
  by (simp add: disable_def enable_no_tokens inner_wildcard_eq regexpToNamespace_def
      RegExp_toString_def substring_def recompute_def)

text \<open>
  Claim C4 at the selector \<open>a*b\<close>, with any engine. \<open>regexpToNamespace\<close> turns only a final
  \<open>.*?\<close> back into \<open>*\<close>, so \<open>disable\<close> returns \<open>a.*?b\<close> (with both rule lists empty
  afterwards, as claimed). Compiling that string replaces its \<open>*\<close> once more, and the
  pattern \<open>^a..*??b$\<close> is a syntax error: \<open>enable\<close> throws, and \<open>axb\<close>, enabled under the
  original selector, is not enabled afterwards.
\<close>

theorem disable_inner_wildcard:
  "fst (enable X (JStr ''a*b'') (init None)) = None
   \<and> enabled (inner_wildcard X) ''axb''
   \<and> fst (disable X (inner_wildcard X)) = Inr ''a.*?b''
   \<and> names (snd (disable X (inner_wildcard X))) = []
   \<and> skips (snd (disable X (inner_wildcard X))) = []
   \<and> fst (enable X (JStr ''a.*?b'') (snd (disable X (inner_wildcard X)))) = Some SyntaxError
   \<and> \<not> enabled (snd (enable X (JStr ''a.*?b'') (snd (disable X (inner_wildcard X))))) ''axb''"
proof -
  have a: "fst (enable X (JStr ''a*b'') (init None)) = None"
    by (simp add: enable_eval)
  have b: "enabled (inner_wildcard X) ''axb''"
    by (simp add: inner_wildcard_eq enabled_def RegExp_test_def line_terminator_def)
  have c: "enable X (JStr ''a.*?b'') ((inner_wildcard X)\<lparr>env_DEBUG := None, names := []\<rparr>)
      = (Some SyntaxError,
         (inner_wildcard X)\<lparr>env_DEBUG := Some (JStr ''a.*?b''), names := []\<rparr>)"
    by (simp add: inner_wildcard_eq enable_eval)
  show ?thesis
    using a b by (simp add: inner_wildcard_disable c) (simp add: inner_wildcard_eq enabled_def)
qed

end
